theory Spec2Isabelle
  imports Main "HOL-Library.Word"
begin

unbundle bit_operations_syntax

section \<open>Basic types of the ARM SMMU driver (drivers/iommu/arm-smmu.c)\<close>

type_synonym u8 = "8 word"
type_synonym u16 = "16 word"
type_synonym u32 = "32 word"
type_synonym u64 = "64 word"

text \<open>Error numbers returned (negated) by the driver's functions.\<close>

datatype errno = EPERM | ENXIO | ENOMEM | EBUSY | EEXIST | ENODEV | EINVAL | ENOSPC

text \<open>The two index bitmaps are declared with 128 bits
  (\<open>ARM_SMMU_MAX_CBS\<close>, \<open>ARM_SMMU_MAX_SMRS\<close>).\<close>

type_synonym bitmap = "128 word"

definition ARM_SMMU_MAX_CBS :: nat where "ARM_SMMU_MAX_CBS = 128"
definition ARM_SMMU_MAX_SMRS :: nat where "ARM_SMMU_MAX_SMRS = 128"

definition TYPE_TRANS :: u8 where "TYPE_TRANS = 0"
definition TYPE_BYPASS :: u8 where "TYPE_BYPASS = 1"
definition TYPE_FAULT :: u8 where "TYPE_FAULT = 2"

record static_cbndx_entry =
  cbndx :: u8
  smr_idx :: u8
  sid :: u16
  type :: u8

datatype arm_smmu_arch_version = ARM_SMMU_V1 | ARM_SMMU_V2

datatype smmu_model_id = SMMU_MODEL_DEFAULT | SMMU_MODEL_QCOM_V2

text \<open>\<open>struct arm_smmu_device\<close>: the fields the verified functions read or write.
  \<open>gdsc\<close> tells whether a regulator was found at probe; the register windows are
  addressed symbolically (see the section on register access).\<close>

record arm_smmu_device =
  model :: smmu_model_id
  options :: u32
  version :: arm_smmu_arch_version
  features :: u32
  num_context_banks :: u32
  num_s2_context_banks :: u32
  context_map :: bitmap
  num_mapping_groups :: u32
  smr_map :: bitmap
  static_cbndx_list :: "static_cbndx_entry list"
  num_clocks :: nat
  gdsc :: bool
  regulator_defer :: int
  attach_count :: u32
  clock_refs_count :: u32
  power_count :: u32
  bus_client :: u32
  regs :: "u64 list"
  reg_global :: "u64 list"
  num_context_irqs :: u32
  irptndx :: u32
  impl_def_attach_registers :: "(nat \<times> u32) list"

section \<open>Resource bitmap allocator and static assignment table\<close>

text \<open>\<open>find_next_zero_bit(addr, size, offset)\<close> of the kernel's bitmap library: the
  first index at or after \<open>offset\<close> and below \<open>size\<close> whose bit is clear, \<open>size\<close> when
  there is none.\<close>

function find_next_zero_bit :: "bitmap \<Rightarrow> nat \<Rightarrow> nat \<Rightarrow> nat" where
  "find_next_zero_bit m sz offset =
     (if sz \<le> offset then sz
      else if \<not> bit m offset then offset
      else find_next_zero_bit m sz (Suc offset))"
  by pat_completeness auto
termination
  by (relation "measure (\<lambda>(m, sz, offset). sz - offset)") auto

declare find_next_zero_bit.simps [simp del]

lemma find_next_zero_bit_le: "find_next_zero_bit m sz offset \<le> sz"
  by (induction m sz offset rule: find_next_zero_bit.induct)
     (subst find_next_zero_bit.simps, simp)

lemma find_next_zero_bit_ge: "offset \<le> sz \<Longrightarrow> offset \<le> find_next_zero_bit m sz offset"
  by (induction m sz offset rule: find_next_zero_bit.induct)
     (subst find_next_zero_bit.simps, auto)

lemma find_next_zero_bit_clear:
  "find_next_zero_bit m sz offset \<noteq> sz \<Longrightarrow> \<not> bit m (find_next_zero_bit m sz offset)"
  by (induction m sz offset rule: find_next_zero_bit.induct)
     (subst (asm) (2) find_next_zero_bit.simps, subst find_next_zero_bit.simps,
      auto split: if_splits)

text \<open>\<open>__arm_smmu_alloc_bitmap\<close>: the \<open>do ... while (test_and_set_bit(idx, map))\<close>
  loop. The retry branch is taken when the bit found clear is seen set by the
  test-and-set; in a sequential run that never happens, which is the termination proof.\<close>

function arm_smmu_alloc_bitmap :: "bitmap \<Rightarrow> nat \<Rightarrow> nat \<Rightarrow> bitmap \<times> (errno + nat)" where
  "arm_smmu_alloc_bitmap m start end' =
     (let idx = find_next_zero_bit m end' start in
      if idx = end' then (m, Inl ENOSPC)
      else if bit m idx then arm_smmu_alloc_bitmap (set_bit idx m) start end'
      else (set_bit idx m, Inr idx))"
  by pat_completeness auto
termination
  by (relation "{}") (auto dest: find_next_zero_bit_clear)

declare arm_smmu_alloc_bitmap.simps [simp del]

lemma arm_smmu_alloc_bitmap_eq:
  "arm_smmu_alloc_bitmap m start end' =
     (let idx = find_next_zero_bit m end' start in
      if idx = end' then (m, Inl ENOSPC) else (set_bit idx m, Inr idx))"
  by (subst arm_smmu_alloc_bitmap.simps) (auto simp: Let_def dest: find_next_zero_bit_clear)

text \<open>\<open>__arm_smmu_set_bitmap\<close> is \<open>test_and_set_bit\<close>: the old bit and the new map.\<close>

definition arm_smmu_set_bitmap :: "bitmap \<Rightarrow> nat \<Rightarrow> bitmap \<times> bool" where
  "arm_smmu_set_bitmap m idx = (set_bit idx m, bit m idx)"

definition arm_smmu_free_bitmap :: "bitmap \<Rightarrow> nat \<Rightarrow> bitmap" where
  "arm_smmu_free_bitmap m idx = unset_bit idx m"

text \<open>The static list is walked from its head; \<open>list_add\<close> inserts at the head. The
  functions take \<open>int sid\<close> and \<open>int idx\<close> and compare them with the promoted field.\<close>

definition arm_smmu_get_static_entry_from_sid ::
  "'a arm_smmu_device_scheme \<Rightarrow> int \<Rightarrow> static_cbndx_entry option" where
  "arm_smmu_get_static_entry_from_sid smmu s =
     find (\<lambda>entry. uint (sid entry) = s) (static_cbndx_list smmu)"

definition arm_smmu_get_static_entry_from_context ::
  "'a arm_smmu_device_scheme \<Rightarrow> int \<Rightarrow> static_cbndx_entry option" where
  "arm_smmu_get_static_entry_from_context smmu idx =
     find (\<lambda>entry. type entry = TYPE_TRANS \<and> uint (cbndx entry) = idx) (static_cbndx_list smmu)"

definition arm_smmu_get_static_entry_from_smr ::
  "'a arm_smmu_device_scheme \<Rightarrow> int \<Rightarrow> static_cbndx_entry option" where
  "arm_smmu_get_static_entry_from_smr smmu idx =
     find (\<lambda>entry. uint (smr_idx entry) = idx) (static_cbndx_list smmu)"

text \<open>The \<open>for\<close> loop of \<open>arm_smmu_alloc_context_idx\<close> over the stream IDs: \<open>entry\<close> is
  overwritten by each lookup and the loop breaks at the first translate entry.\<close>

fun static_entry_scan ::
  "'a arm_smmu_device_scheme \<Rightarrow> u16 list \<Rightarrow> static_cbndx_entry option \<Rightarrow> static_cbndx_entry option" where
  "static_entry_scan smmu [] entry = entry"
| "static_entry_scan smmu (s # ss) entry =
     (case arm_smmu_get_static_entry_from_sid smmu (uint s) of
        Some e \<Rightarrow> if type e = TYPE_TRANS then Some e else static_entry_scan smmu ss (Some e)
      | None \<Rightarrow> static_entry_scan smmu ss None)"

definition arm_smmu_alloc_context_idx ::
  "'a arm_smmu_device_scheme \<Rightarrow> nat \<Rightarrow> nat \<Rightarrow> u16 list \<Rightarrow>
     'a arm_smmu_device_scheme \<times> (errno + nat)" where
  "arm_smmu_alloc_context_idx smmu start end' streamids =
     (case static_entry_scan smmu streamids None of
        Some entry \<Rightarrow>
          if type entry = TYPE_TRANS then (smmu, Inr (unat (cbndx entry)))
          else (case arm_smmu_alloc_bitmap (context_map smmu) start end' of
                  (m, r) \<Rightarrow> (smmu\<lparr>context_map := m\<rparr>, r))
      | None \<Rightarrow>
          (case arm_smmu_alloc_bitmap (context_map smmu) start end' of
             (m, r) \<Rightarrow> (smmu\<lparr>context_map := m\<rparr>, r)))"

definition arm_smmu_alloc_smr_idx ::
  "'a arm_smmu_device_scheme \<Rightarrow> nat \<Rightarrow> nat \<Rightarrow> int \<Rightarrow>
     'a arm_smmu_device_scheme \<times> (errno + nat)" where
  "arm_smmu_alloc_smr_idx smmu start end' s =
     (case arm_smmu_get_static_entry_from_sid smmu s of
        Some entry \<Rightarrow> (smmu, Inr (unat (smr_idx entry)))
      | None \<Rightarrow>
          (case arm_smmu_alloc_bitmap (smr_map smmu) start end' of
             (m, r) \<Rightarrow> (smmu\<lparr>smr_map := m\<rparr>, r)))"

definition arm_smmu_free_smr_idx :: "'a arm_smmu_device_scheme \<Rightarrow> nat \<Rightarrow> 'a arm_smmu_device_scheme" where
  "arm_smmu_free_smr_idx smmu idx =
     (case arm_smmu_get_static_entry_from_smr smmu (int idx) of
        None \<Rightarrow> smmu\<lparr>smr_map := arm_smmu_free_bitmap (smr_map smmu) idx\<rparr>
      | Some entry \<Rightarrow> smmu)"

definition arm_smmu_free_context_idx :: "'a arm_smmu_device_scheme \<Rightarrow> nat \<Rightarrow> 'a arm_smmu_device_scheme" where
  "arm_smmu_free_context_idx smmu idx =
     (case arm_smmu_get_static_entry_from_context smmu (int idx) of
        None \<Rightarrow> smmu\<lparr>context_map := arm_smmu_free_bitmap (context_map smmu) idx\<rparr>
      | Some entry \<Rightarrow> smmu)"

text \<open>A device instance with four context banks and four mapping groups whose firmware
  left stream ID 5 bound to context bank 3 through stream-match register 0.\<close>

definition smmu_static_example :: arm_smmu_device where
  "smmu_static_example = \<lparr>model = SMMU_MODEL_DEFAULT, options = 0, version = ARM_SMMU_V2,
     features = 0, num_context_banks = 4, num_s2_context_banks = 0, context_map = 8,
     num_mapping_groups = 4, smr_map = 1,
     static_cbndx_list = [\<lparr>static_cbndx_entry.cbndx = 3, smr_idx = 0, sid = 5, type = TYPE_TRANS\<rparr>],
     num_clocks = 2, gdsc = True, regulator_defer = 0, attach_count = 0,
     clock_refs_count = 0, power_count = 0, bus_client = 1, regs = [], reg_global = [],
     num_context_irqs = 4, irptndx = 0, impl_def_attach_registers = []\<rparr>"

text \<open>The same device instance when the firmware also left stream ID 9 bypassing
  translation through stream-match register 1.\<close>

definition smmu_static_pair_example :: arm_smmu_device where
  "smmu_static_pair_example = smmu_static_example
     \<lparr>smr_map := 3,
      static_cbndx_list :=
        [\<lparr>static_cbndx_entry.cbndx = 0, smr_idx = 1, sid = 9, type = TYPE_BYPASS\<rparr>,
         \<lparr>static_cbndx_entry.cbndx = 3, smr_idx = 0, sid = 5, type = TYPE_TRANS\<rparr>]\<rparr>"

text \<open>A device instance whose firmware left two valid stream-match registers with stream
  ID 5: register 0 routes it to context bank 3, register 1 (probed later, so first in the
  list) marks it as faulting.\<close>

definition smmu_shadowed_example :: arm_smmu_device where
  "smmu_shadowed_example = smmu_static_example
     \<lparr>smr_map := 3,
      static_cbndx_list :=
        [\<lparr>static_cbndx_entry.cbndx = 0, smr_idx = 1, sid = 5, type = TYPE_FAULT\<rparr>,
         \<lparr>static_cbndx_entry.cbndx = 3, smr_idx = 0, sid = 5, type = TYPE_TRANS\<rparr>]\<rparr>"

section \<open>The driver's environment\<close>

text \<open>The register windows of a device instance are addressed symbolically: the global
  spaces 0 and 1, the implementation-defined pages and one page per context bank, with
  the byte offset inside the window. \<open>ARM_SMMU_GR0_NS\<close> is global space 0 with the
  offset shifted by 0x400 when the secure-config-access option is set.\<close>

datatype reg_window = GR0 | GR1 | IMPL_DEF0 | IMPL_DEF1 | CB nat

type_synonym addr = "reg_window \<times> nat"

datatype mmio_event =
    Readl addr u32
  | Readq addr u64
  | Writel addr u32
  | Writeq addr u64
  | Poll addr bool

text \<open>The flags of a fault report (\<open>IOMMU_FAULT_*\<close>), kept as the list of flags set.\<close>

datatype fault_flag =
    IOMMU_FAULT_READ
  | IOMMU_FAULT_WRITE
  | IOMMU_FAULT_TRANSLATION
  | IOMMU_FAULT_PERMISSION
  | IOMMU_FAULT_EXTERNAL
  | IOMMU_FAULT_TRANSACTION_STALLED

text \<open>Calls into the collaborators the driver consumes: regulator, bus scaling and clock
  subsystems, the hypervisor, the secure monitor, the fault callback of the domain owner,
  the kernel allocators and the page-table library's lookups. Clocks are named by their
  index in \<open>smmu->clocks\<close>.\<close>

datatype ext_call =
    regulator_enable
  | regulator_disable
  | regulator_disable_deferred int
  | msm_bus_scale_client_update_request u32 nat
  | clk_prepare nat
  | clk_unprepare nat
  | clk_enable nat
  | clk_disable nat
  | hyp_assign_phys u64 "int list" "int list" "int list"
  | report_iommu_fault u64 "fault_flag list"
  | ratelimit
  | scm_restore_sec_cfg
  | scm_io_write addr u32
  | io_pgtable_iova_to_phys u64
  | alloc_pages_exact nat
  | free_pages_exact u64 nat
  | kzalloc_pte_info
  | kmalloc_pool_chunk
  | request_threaded_irq nat
  | free_irq nat
  | msm_tz_set_cb_format nat
  | idr_alloc_cyclic nat
  | idr_remove u16
  | kmalloc_array_smrs nat

datatype log_msg =
    WARN_mismatched_power_count
  | WARN_regulator_disable_failed
  | WARN_ON_ONCE_ret
  | WARN_ON_hyp_assign
  | err_couldnt_prepare_clock nat
  | err_couldnt_enable_clock nat
  | err_fault_on_detached_domain
  | err_address_size_fault
  | dbg_fault_handled_by_client
  | err_unhandled_context_fault
  | err_software_table_walk_failed
  | err_unhandled_faults_fatal
  | err_atos_failed_retry
  | err_atos_succeeded_second_time
  | err_atos_still_failed
  | err_iova_to_phys_timed_out
  | err_iova_to_phys_failed
  | err_translation_fault
  | err_couldnt_halt
  | err_scm_io_write_fail
  | err_scm_restore_failed
  | err_tlb_sync_timed_out
  | err_tlbsync_timeout
  | err_failed_to_enable_clocks
  | err_slave_side_atomic
  | err_request_irq_failed
  | err_cannot_attach_to_smmu
  | err_already_attached
  | err_no_valid_context_bank
  | err_dynamic_not_supported
  | err_domain_already_attached
  | err_invalid_context_bank
  | err_dynamic_asid_failed
  | err_domain_already_detached
  | err_failed_to_allocate_smrs
  | err_no_free_smr

text \<open>The machine is the device instance together with what its environment has seen
  of it: the register accesses, the collaborator calls with their results, and the log,
  each in program order.\<close>

record machine = arm_smmu_device +
  mmio :: "mmio_event list"
  calls :: "(ext_call \<times> int) list"
  logs :: "log_msg list"

text \<open>The environment answers every read and every call; an answer may depend on all that
  happened before. \<open>hw_poll_timeout\<close> tells whether a \<open>readl_poll_timeout_atomic\<close> on a
  register gives up.\<close>

record env =
  ext_ret :: "machine \<Rightarrow> ext_call \<Rightarrow> int"
  hw_readl :: "machine \<Rightarrow> addr \<Rightarrow> u32"
  hw_readq :: "machine \<Rightarrow> addr \<Rightarrow> u64"
  hw_poll_timeout :: "machine \<Rightarrow> addr \<Rightarrow> bool"

definition call :: "env \<Rightarrow> ext_call \<Rightarrow> machine \<Rightarrow> int \<times> machine" where
  "call env c s = (let r = ext_ret env s c in (r, s\<lparr>calls := calls s @ [(c, r)]\<rparr>))"

text \<open>A call to a \<open>void\<close> function, or one whose result the driver drops.\<close>

definition call_void :: "ext_call \<Rightarrow> machine \<Rightarrow> machine" where
  "call_void c s = s\<lparr>calls := calls s @ [(c, 0)]\<rparr>"

definition log :: "log_msg \<Rightarrow> machine \<Rightarrow> machine" where
  "log m s = s\<lparr>logs := logs s @ [m]\<rparr>"

definition readl_relaxed :: "env \<Rightarrow> addr \<Rightarrow> machine \<Rightarrow> u32 \<times> machine" where
  "readl_relaxed env a s = (let v = hw_readl env s a in (v, s\<lparr>mmio := mmio s @ [Readl a v]\<rparr>))"

definition readq_relaxed :: "env \<Rightarrow> addr \<Rightarrow> machine \<Rightarrow> u64 \<times> machine" where
  "readq_relaxed env a s = (let v = hw_readq env s a in (v, s\<lparr>mmio := mmio s @ [Readq a v]\<rparr>))"

definition writel_relaxed :: "u32 \<Rightarrow> addr \<Rightarrow> machine \<Rightarrow> machine" where
  "writel_relaxed v a s = s\<lparr>mmio := mmio s @ [Writel a v]\<rparr>"

definition writeq_relaxed :: "u64 \<Rightarrow> addr \<Rightarrow> machine \<Rightarrow> machine" where
  "writeq_relaxed v a s = s\<lparr>mmio := mmio s @ [Writeq a v]\<rparr>"

text \<open>\<open>readl_poll_timeout_atomic\<close>: \<open>True\<close> when the condition was not met in time.\<close>

definition readl_poll_timeout_atomic :: "env \<Rightarrow> addr \<Rightarrow> machine \<Rightarrow> bool \<times> machine" where
  "readl_poll_timeout_atomic env a s =
     (let t = hw_poll_timeout env s a in (t, s\<lparr>mmio := mmio s @ [Poll a t]\<rparr>))"

fun errno_code :: "errno \<Rightarrow> int" where
  "errno_code EPERM = 1"
| "errno_code ENXIO = 6"
| "errno_code ENOMEM = 12"
| "errno_code EBUSY = 16"
| "errno_code EEXIST = 17"
| "errno_code ENODEV = 19"
| "errno_code EINVAL = 22"
| "errno_code ENOSPC = 28"

section \<open>Power and clock gate\<close>

text \<open>\<open>arm_smmu_unprepare_clocks\<close>: \<open>for (i = num_clocks; i; --i) clk_unprepare(clocks[i - 1])\<close>.
  The same countdown is the \<open>while (i--)\<close> unwinding of a failed prepare.\<close>

fun unprepare_down :: "nat \<Rightarrow> machine \<Rightarrow> machine" where
  "unprepare_down 0 s = s"
| "unprepare_down (Suc i) s = unprepare_down i (call_void (clk_unprepare i) s)"

definition arm_smmu_unprepare_clocks :: "machine \<Rightarrow> machine" where
  "arm_smmu_unprepare_clocks s = unprepare_down (num_clocks s) s"

function prepare_loop :: "env \<Rightarrow> nat \<Rightarrow> nat \<Rightarrow> machine \<Rightarrow> int \<times> machine" where
  "prepare_loop env n i s =
     (if i < n then
        (case call env (clk_prepare i) s of (ret, s1) \<Rightarrow>
           if ret \<noteq> 0 then (ret, unprepare_down i (log (err_couldnt_prepare_clock i) s1))
           else prepare_loop env n (Suc i) s1)
      else (0, s))"
  by pat_completeness auto
termination
  by (relation "measure (\<lambda>(env, n, i, s). n - i)") auto

declare prepare_loop.simps [simp del]

definition arm_smmu_prepare_clocks :: "env \<Rightarrow> machine \<Rightarrow> int \<times> machine" where
  "arm_smmu_prepare_clocks env s = prepare_loop env (num_clocks s) 0 s"

definition arm_smmu_request_bus :: "env \<Rightarrow> machine \<Rightarrow> int \<times> machine" where
  "arm_smmu_request_bus env s =
     (if bus_client s = 0 then (0, s)
      else call env (msm_bus_scale_client_update_request (bus_client s) 1) s)"

definition arm_smmu_unrequest_bus :: "env \<Rightarrow> machine \<Rightarrow> int \<times> machine" where
  "arm_smmu_unrequest_bus env s =
     (if bus_client s = 0 then (0, s)
      else call env (msm_bus_scale_client_update_request (bus_client s) 0) s)"

definition arm_smmu_disable_regulators :: "env \<Rightarrow> machine \<Rightarrow> int \<times> machine" where
  "arm_smmu_disable_regulators env s =
     (if power_count s = 0 then
        (- errno_code EINVAL, log WARN_mismatched_power_count s)
      else if power_count s > 1 then
        (0, s\<lparr>power_count := power_count s - 1\<rparr>)
      else
        (let s1 = arm_smmu_unprepare_clocks s;
             s2 = snd (arm_smmu_unrequest_bus env s1);
             (ret, s3) =
               (if gdsc s2 then
                  (case call env (regulator_disable_deferred (regulator_defer s2)) s2 of
                     (ret, s3) \<Rightarrow>
                       (ret, if ret \<noteq> 0 then log WARN_regulator_disable_failed s3 else s3))
                else (0, s2))
         in (ret, s3\<lparr>power_count := 0\<rparr>)))"

definition arm_smmu_enable_regulators :: "env \<Rightarrow> machine \<Rightarrow> int \<times> machine" where
  "arm_smmu_enable_regulators env s =
     (if power_count s \<noteq> 0 then (0, s\<lparr>power_count := power_count s + 1\<rparr>)
      else
        (case (if gdsc s then call env regulator_enable s else (0, s)) of (ret, s1) \<Rightarrow>
           if gdsc s \<and> ret \<noteq> 0 then (ret, log WARN_ON_ONCE_ret s1)
           else
             (case arm_smmu_request_bus env s1 of (ret, s2) \<Rightarrow>
                if ret \<noteq> 0 then
                  (ret, let s3 = log WARN_ON_ONCE_ret s2
                        in if gdsc s3 then call_void regulator_disable s3 else s3)
                else
                  (case arm_smmu_prepare_clocks env s2 of (ret, s3) \<Rightarrow>
                     if ret \<noteq> 0 then
                       (ret, let s4 = log WARN_ON_ONCE_ret s3;
                                 s5 = snd (arm_smmu_unrequest_bus env s4)
                             in if gdsc s5 then call_void regulator_disable s5 else s5)
                     else (ret, s3\<lparr>power_count := 1\<rparr>)))))"

text \<open>\<open>arm_smmu_enable_clocks_atomic\<close>: the count is incremented first
  (\<open>clock_refs_count++ > 0\<close>) and taken back when a clock fails to enable.\<close>

fun disable_down :: "nat \<Rightarrow> machine \<Rightarrow> machine" where
  "disable_down 0 s = s"
| "disable_down (Suc i) s = disable_down i (call_void (clk_disable i) s)"

function enable_loop :: "env \<Rightarrow> nat \<Rightarrow> nat \<Rightarrow> machine \<Rightarrow> int \<times> machine" where
  "enable_loop env n i s =
     (if i < n then
        (case call env (clk_enable i) s of (ret, s1) \<Rightarrow>
           if ret \<noteq> 0 then
             (ret, let s2 = disable_down i
                              (log (err_couldnt_enable_clock i) (log WARN_ON_ONCE_ret s1))
                   in s2\<lparr>clock_refs_count := clock_refs_count s2 - 1\<rparr>)
           else enable_loop env n (Suc i) s1)
      else (0, s))"
  by pat_completeness auto
termination
  by (relation "measure (\<lambda>(env, n, i, s). n - i)") auto

declare enable_loop.simps [simp del]

definition arm_smmu_enable_clocks_atomic :: "env \<Rightarrow> machine \<Rightarrow> int \<times> machine" where
  "arm_smmu_enable_clocks_atomic env s =
     (let s1 = s\<lparr>clock_refs_count := clock_refs_count s + 1\<rparr>
      in if clock_refs_count s > 0 then (0, s1)
         else enable_loop env (num_clocks s1) 0 s1)"

definition arm_smmu_disable_clocks_atomic :: "machine \<Rightarrow> machine" where
  "arm_smmu_disable_clocks_atomic s =
     (let s1 = s\<lparr>clock_refs_count := clock_refs_count s - 1\<rparr>
      in if clock_refs_count s > 1 then s1
         else disable_down (num_clocks s1) s1)"

definition arm_smmu_enable_clocks :: "env \<Rightarrow> machine \<Rightarrow> int \<times> machine" where
  "arm_smmu_enable_clocks env s =
     (case arm_smmu_enable_regulators env s of (ret, s1) \<Rightarrow>
        if ret \<noteq> 0 then (ret, s1)
        else
          (case arm_smmu_enable_clocks_atomic env s1 of (ret, s2) \<Rightarrow>
             if ret \<noteq> 0 then (ret, snd (arm_smmu_disable_regulators env s2))
             else (ret, s2)))"

definition arm_smmu_disable_clocks :: "env \<Rightarrow> machine \<Rightarrow> machine" where
  "arm_smmu_disable_clocks env s =
     snd (arm_smmu_disable_regulators env (arm_smmu_disable_clocks_atomic s))"

text \<open>A run of \<open>n\<close> calls of one operation, with the results in call order.\<close>

fun repeat_op :: "nat \<Rightarrow> (machine \<Rightarrow> int \<times> machine) \<Rightarrow> machine \<Rightarrow> int list \<times> machine" where
  "repeat_op 0 f s = ([], s)"
| "repeat_op (Suc n) f s =
     (case f s of (r, s1) \<Rightarrow> (case repeat_op n f s1 of (rs, s2) \<Rightarrow> (r # rs, s2)))"

text \<open>The regulator, bus and clock subsystems are outside the driver. Their state is read
  off the calls the driver issued: the rail's enable count, the bus vote last requested
  and, per clock, the prepare and enable counts. A call that reports failure has no
  effect.\<close>

record platform =
  rail :: int
  bus_vote :: nat
  prepared :: "nat \<Rightarrow> int"
  enabled :: "nat \<Rightarrow> int"

fun platform_step :: "platform \<Rightarrow> ext_call \<times> int \<Rightarrow> platform" where
  "platform_step p (regulator_enable, r) = (if r = 0 then p\<lparr>rail := rail p + 1\<rparr> else p)"
| "platform_step p (regulator_disable, r) = (if r = 0 then p\<lparr>rail := rail p - 1\<rparr> else p)"
| "platform_step p (regulator_disable_deferred d, r) =
     (if r = 0 then p\<lparr>rail := rail p - 1\<rparr> else p)"
| "platform_step p (msm_bus_scale_client_update_request c i, r) =
     (if r = 0 then p\<lparr>bus_vote := i\<rparr> else p)"
| "platform_step p (clk_prepare i, r) =
     (if r = 0 then p\<lparr>prepared := (prepared p)(i := prepared p i + 1)\<rparr> else p)"
| "platform_step p (clk_unprepare i, r) = p\<lparr>prepared := (prepared p)(i := prepared p i - 1)\<rparr>"
| "platform_step p (clk_enable i, r) =
     (if r = 0 then p\<lparr>enabled := (enabled p)(i := enabled p i + 1)\<rparr> else p)"
| "platform_step p (clk_disable i, r) = p\<lparr>enabled := (enabled p)(i := enabled p i - 1)\<rparr>"
| "platform_step p (_, r) = p"

definition platform_after :: "platform \<Rightarrow> (ext_call \<times> int) list \<Rightarrow> platform" where
  "platform_after p cs = foldl platform_step p cs"

text \<open>The teardown call that undoes a bring-up call.\<close>

fun mirror_call :: "int \<Rightarrow> ext_call \<times> int \<Rightarrow> ext_call \<times> int" where
  "mirror_call d (regulator_enable, r) = (regulator_disable_deferred d, r)"
| "mirror_call d (msm_bus_scale_client_update_request c i, r) =
     (msm_bus_scale_client_update_request c 0, r)"
| "mirror_call d (clk_prepare i, r) = (clk_unprepare i, r)"
| "mirror_call d (clk_enable i, r) = (clk_disable i, r)"
| "mirror_call d c = c"

text \<open>The environment in which the regulator, bus and clock calls succeed.\<close>

fun is_power_call :: "ext_call \<Rightarrow> bool" where
  "is_power_call regulator_enable = True"
| "is_power_call regulator_disable = True"
| "is_power_call (regulator_disable_deferred d) = True"
| "is_power_call (msm_bus_scale_client_update_request c i) = True"
| "is_power_call (clk_prepare i) = True"
| "is_power_call (clk_unprepare i) = True"
| "is_power_call (clk_enable i) = True"
| "is_power_call (clk_disable i) = True"
| "is_power_call _ = False"

definition platform_ok :: "env \<Rightarrow> bool" where
  "platform_ok env = (\<forall>s c. is_power_call c \<longrightarrow> ext_ret env s c = 0)"

text \<open>An environment that answers every call with success and every read with 0.\<close>

definition env_ok :: env where
  "env_ok = \<lparr>ext_ret = (\<lambda>s c. 0), hw_readl = (\<lambda>s a. 0), hw_readq = (\<lambda>s a. 0),
     hw_poll_timeout = (\<lambda>s a. False)\<rparr>"

text \<open>An environment in which the deferred disable of the regulator fails.\<close>

definition env_rail_stuck :: env where
  "env_rail_stuck =
     \<lparr>ext_ret = (\<lambda>s c. case c of regulator_disable_deferred t \<Rightarrow> - 5 | _ \<Rightarrow> 0),
      hw_readl = (\<lambda>s a. 0), hw_readq = (\<lambda>s a. 0), hw_poll_timeout = (\<lambda>s a. False)\<rparr>"

text \<open>The calls of a bring-up in which every call succeeds: the rail, the bus vote, then
  every clock in registration order.\<close>

definition bring_up_calls :: "machine \<Rightarrow> (ext_call \<times> int) list" where
  "bring_up_calls s =
     (if gdsc s then [(regulator_enable, 0)] else []) @
     (if bus_client s \<noteq> 0 then [(msm_bus_scale_client_update_request (bus_client s) 1, 0)] else []) @
     map (\<lambda>j. (clk_prepare j, 0)) [0..<num_clocks s]"

text \<open>A powered-down device instance with a regulator, a bus client and two clocks.\<close>

definition machine_off :: machine where
  "machine_off = \<lparr>model = SMMU_MODEL_QCOM_V2, options = 0, version = ARM_SMMU_V2,
     features = 0, num_context_banks = 2, num_s2_context_banks = 0, context_map = 0,
     num_mapping_groups = 2, smr_map = 0, static_cbndx_list = [],
     num_clocks = 2, gdsc = True, regulator_defer = 0, attach_count = 0,
     clock_refs_count = 0, power_count = 0, bus_client = 1,
     regs = replicate (128 * 11) 0, reg_global = replicate 257 0,
     num_context_irqs = 2, irptndx = 0, impl_def_attach_registers = [],
     mmio = [], calls = [], logs = []\<rparr>"

definition platform_off :: platform where
  "platform_off = \<lparr>rail = 0, bus_vote = 0, prepared = (\<lambda>i. 0), enabled = (\<lambda>i. 0)\<rparr>"

text \<open>A run that changed nothing but the two reference counts, and added only regulator,
  bus and clock calls and log lines.\<close>

fun is_power_log :: "log_msg \<Rightarrow> bool" where
  "is_power_log WARN_mismatched_power_count = True"
| "is_power_log WARN_regulator_disable_failed = True"
| "is_power_log WARN_ON_ONCE_ret = True"
| "is_power_log (err_couldnt_prepare_clock i) = True"
| "is_power_log (err_couldnt_enable_clock i) = True"
| "is_power_log _ = False"

definition power_only :: "machine \<Rightarrow> machine \<Rightarrow> bool" where
  "power_only s s' \<longleftrightarrow>
     (\<exists>pc cc cs ls. s' = s\<lparr>power_count := pc, clock_refs_count := cc,
                              calls := calls s @ cs, logs := logs s @ ls\<rparr> \<and>
        (\<forall>c\<in>set cs. is_power_call (fst c)) \<and> (\<forall>l\<in>set ls. is_power_log l))"

section \<open>Translation domains\<close>

record arm_smmu_cfg =
  cbndx :: u8
  irptndx :: u8
  cbar :: u32
  procid :: u32
  asid :: u16
  vmid :: u8

definition INVALID_IRPTNDX :: u8 where "INVALID_IRPTNDX = 0xff"
definition INVALID_CBNDX :: u8 where "INVALID_CBNDX = 0xff"
definition INVALID_ASID :: u16 where "INVALID_ASID = 0xffff"
definition INVALID_VMID :: u8 where "INVALID_VMID = 0xff"

datatype arm_smmu_domain_stage = ARM_SMMU_DOMAIN_S1 | ARM_SMMU_DOMAIN_S2 | ARM_SMMU_DOMAIN_NESTED

text \<open>Page-table memory is named by its kernel virtual address; \<open>virt_to_phys\<close> is a fixed
  injection that the model leaves out, so a page's physical address is written as its
  virtual one.\<close>

record arm_smmu_pte_info =
  virt_addr :: u64
  size' :: nat

record arm_smmu_secure_pool_chunk =
  addr' :: u64
  chunk_size :: nat

text \<open>The domain attributes are bits of \<open>attributes\<close> numbered by \<open>enum iommu_attr\<close>, which
  the driver only tests, sets and clears one at a time; the model keeps the set of
  attributes whose bit is set.\<close>

datatype iommu_attr =
    DOMAIN_ATTR_ATOMIC
  | DOMAIN_ATTR_DYNAMIC
  | DOMAIN_ATTR_FAST
  | DOMAIN_ATTR_EARLY_MAP
  | DOMAIN_ATTR_S1_BYPASS
  | DOMAIN_ATTR_ENABLE_TTBR1
  | DOMAIN_ATTR_CB_STALL_DISABLE
  | DOMAIN_ATTR_PAGE_TABLE_FORCE_COHERENT
  | DOMAIN_ATTR_GEOMETRY

text \<open>What the page-table library leaves in \<open>struct io_pgtable_cfg\<close> for the driver to
  program into the context bank: the stage-1 and stage-2 register values.\<close>

record io_pgtable_cfg =
  ttbr0 :: u64
  ttbr1 :: u64
  tcr :: u64
  mair0 :: u64
  mair1 :: u64
  vttbr :: u64
  vtcr :: u64

text \<open>\<open>struct arm_smmu_domain\<close>. The model has one device instance, so the \<open>smmu\<close> pointer
  is \<open>True\<close> when it is set; \<open>pgtbl_ops\<close> likewise tells whether page-table operations
  are installed.\<close>

record arm_smmu_domain =
  smmu :: bool
  pgtbl_ops :: bool
  cfg :: arm_smmu_cfg
  stage :: arm_smmu_domain_stage
  attributes :: "iommu_attr set"
  slave_side_secure :: bool
  secure_vmid :: u32
  pte_info_list :: "arm_smmu_pte_info list"
  unassign_list :: "arm_smmu_pte_info list"
  secure_pool_list :: "arm_smmu_secure_pool_chunk list"
  non_fatal_faults :: bool
  pgtbl_cfg :: io_pgtable_cfg

text \<open>\<open>VMID_INVAL\<close> and \<open>VMID_HLOS\<close> of the secure-buffer interface.\<close>

definition VMID_INVAL :: u32 where "VMID_INVAL = - 1"
definition VMID_HLOS :: int where "VMID_HLOS = 3"

definition arm_smmu_domain_alloc :: arm_smmu_domain where
  "arm_smmu_domain_alloc =
     \<lparr>smmu = False, pgtbl_ops = False,
      cfg = \<lparr>cbndx = INVALID_CBNDX, irptndx = INVALID_IRPTNDX, cbar = 0, procid = 0,
             asid = INVALID_ASID, vmid = INVALID_VMID\<rparr>,
      stage = ARM_SMMU_DOMAIN_S1, attributes = {}, slave_side_secure = False,
      secure_vmid = VMID_INVAL, pte_info_list = [], unassign_list = [],
      secure_pool_list = [], non_fatal_faults = False,
      pgtbl_cfg = \<lparr>ttbr0 = 0, ttbr1 = 0, tcr = 0, mair0 = 0, mair1 = 0, vttbr = 0, vtcr = 0\<rparr>\<rparr>"

definition ARM_SMMU_OPT_SECURE_CFG_ACCESS :: u32 where "ARM_SMMU_OPT_SECURE_CFG_ACCESS = 1"
definition ARM_SMMU_OPT_REGISTER_SAVE :: u32 where "ARM_SMMU_OPT_REGISTER_SAVE = 8"
definition ARM_SMMU_OPT_ERRATA_CTX_FAULT_HANG :: u32 where "ARM_SMMU_OPT_ERRATA_CTX_FAULT_HANG = 32"
definition ARM_SMMU_OPT_FATAL_ASF :: u32 where "ARM_SMMU_OPT_FATAL_ASF = 64"
definition ARM_SMMU_OPT_DYNAMIC :: u32 where "ARM_SMMU_OPT_DYNAMIC = 1024"
definition ARM_SMMU_OPT_STATIC_CB :: u32 where "ARM_SMMU_OPT_STATIC_CB = 4096"

definition arm_smmu_is_static_cb :: "machine \<Rightarrow> bool" where
  "arm_smmu_is_static_cb s = (options s AND ARM_SMMU_OPT_STATIC_CB \<noteq> 0)"

definition arm_smmu_has_secure_vmid :: "arm_smmu_domain \<Rightarrow> bool" where
  "arm_smmu_has_secure_vmid d = (secure_vmid d \<noteq> VMID_INVAL)"

definition arm_smmu_is_slave_side_secure :: "arm_smmu_domain \<Rightarrow> bool" where
  "arm_smmu_is_slave_side_secure d = (arm_smmu_has_secure_vmid d \<and> slave_side_secure d)"

definition arm_smmu_is_master_side_secure :: "arm_smmu_domain \<Rightarrow> bool" where
  "arm_smmu_is_master_side_secure d = (arm_smmu_has_secure_vmid d \<and> \<not> slave_side_secure d)"

section \<open>Register access\<close>

definition ARM_SMMU_GR0_sCR0 :: nat where "ARM_SMMU_GR0_sCR0 = 0x0"
definition ARM_SMMU_GR0_TLBIVMID :: nat where "ARM_SMMU_GR0_TLBIVMID = 0x64"
definition ARM_SMMU_GR0_TLBIALLNSNH :: nat where "ARM_SMMU_GR0_TLBIALLNSNH = 0x68"
definition ARM_SMMU_GR0_TLBIALLH :: nat where "ARM_SMMU_GR0_TLBIALLH = 0x6c"
definition ARM_SMMU_GR0_sTLBGSYNC :: nat where "ARM_SMMU_GR0_sTLBGSYNC = 0x70"
definition ARM_SMMU_GR0_sTLBGSTATUS :: nat where "ARM_SMMU_GR0_sTLBGSTATUS = 0x74"
definition sTLBGSTATUS_GSACTIVE :: u32 where "sTLBGSTATUS_GSACTIVE = 1"
definition TLB_LOOP_TIMEOUT :: nat where "TLB_LOOP_TIMEOUT = 500000"

definition ARM_SMMU_GR0_SMR :: "nat \<Rightarrow> nat" where "ARM_SMMU_GR0_SMR n = 0x800 + 4 * n"
definition ARM_SMMU_GR0_S2CR :: "nat \<Rightarrow> nat" where "ARM_SMMU_GR0_S2CR n = 0xc00 + 4 * n"
definition ARM_SMMU_GR1_CBAR :: "nat \<Rightarrow> nat" where "ARM_SMMU_GR1_CBAR n = 0x0 + 4 * n"
definition ARM_SMMU_GR1_CBA2R :: "nat \<Rightarrow> nat" where "ARM_SMMU_GR1_CBA2R n = 0x800 + 4 * n"
definition ARM_SMMU_GR1_CBFRSYNRA :: "nat \<Rightarrow> nat" where "ARM_SMMU_GR1_CBFRSYNRA n = 0x400 + 4 * n"

definition CBAR_TYPE_S2_TRANS :: u32 where "CBAR_TYPE_S2_TRANS = 0"
definition CBAR_TYPE_S1_TRANS_S2_BYPASS :: u32 where "CBAR_TYPE_S1_TRANS_S2_BYPASS = 0x10000"

definition ARM_SMMU_CB_SCTLR :: nat where "ARM_SMMU_CB_SCTLR = 0x0"
definition ARM_SMMU_CB_ACTLR :: nat where "ARM_SMMU_CB_ACTLR = 0x4"
definition ARM_SMMU_CB_RESUME :: nat where "ARM_SMMU_CB_RESUME = 0x8"
definition ARM_SMMU_CB_TTBCR2 :: nat where "ARM_SMMU_CB_TTBCR2 = 0x10"
definition ARM_SMMU_CB_TTBR0 :: nat where "ARM_SMMU_CB_TTBR0 = 0x20"
definition ARM_SMMU_CB_TTBR1 :: nat where "ARM_SMMU_CB_TTBR1 = 0x28"
definition ARM_SMMU_CB_TTBCR :: nat where "ARM_SMMU_CB_TTBCR = 0x30"
definition ARM_SMMU_CB_CONTEXTIDR :: nat where "ARM_SMMU_CB_CONTEXTIDR = 0x34"
definition ARM_SMMU_CB_S1_MAIR0 :: nat where "ARM_SMMU_CB_S1_MAIR0 = 0x38"
definition ARM_SMMU_CB_S1_MAIR1 :: nat where "ARM_SMMU_CB_S1_MAIR1 = 0x3c"
definition ARM_SMMU_CB_PAR_LO :: nat where "ARM_SMMU_CB_PAR_LO = 0x50"
definition ARM_SMMU_CB_PAR_HI :: nat where "ARM_SMMU_CB_PAR_HI = 0x54"
definition ARM_SMMU_CB_FSR :: nat where "ARM_SMMU_CB_FSR = 0x58"
definition ARM_SMMU_CB_FAR_LO :: nat where "ARM_SMMU_CB_FAR_LO = 0x60"
definition ARM_SMMU_CB_FAR_HI :: nat where "ARM_SMMU_CB_FAR_HI = 0x64"
definition ARM_SMMU_CB_FSYNR0 :: nat where "ARM_SMMU_CB_FSYNR0 = 0x68"
definition ARM_SMMU_CB_S1_TLBIASID :: nat where "ARM_SMMU_CB_S1_TLBIASID = 0x610"
definition ARM_SMMU_CB_TLBSYNC :: nat where "ARM_SMMU_CB_TLBSYNC = 0x7f0"
definition ARM_SMMU_CB_TLBSTATUS :: nat where "ARM_SMMU_CB_TLBSTATUS = 0x7f4"
definition ARM_SMMU_CB_ATS1PR :: nat where "ARM_SMMU_CB_ATS1PR = 0x800"
definition ARM_SMMU_CB_ATSR :: nat where "ARM_SMMU_CB_ATSR = 0x8f0"

definition SCTLR_CFCFG :: u32 where "SCTLR_CFCFG = 0x80"
definition CB_PAR_F :: u64 where "CB_PAR_F = 1"
definition RESUME_RETRY :: u32 where "RESUME_RETRY = 0"
definition RESUME_TERMINATE :: u32 where "RESUME_TERMINATE = 1"

definition FSR_MULTI :: u32 where "FSR_MULTI = 0x80000000"
definition FSR_SS :: u32 where "FSR_SS = 0x40000000"
definition FSR_UUT :: u32 where "FSR_UUT = 0x100"
definition FSR_ASF :: u32 where "FSR_ASF = 0x80"
definition FSR_TLBLKF :: u32 where "FSR_TLBLKF = 0x40"
definition FSR_TLBMCF :: u32 where "FSR_TLBMCF = 0x20"
definition FSR_EF :: u32 where "FSR_EF = 0x10"
definition FSR_PF :: u32 where "FSR_PF = 0x8"
definition FSR_AFF :: u32 where "FSR_AFF = 0x4"
definition FSR_TF :: u32 where "FSR_TF = 0x2"
definition FSR_IGN :: u32 where "FSR_IGN = (FSR_AFF OR FSR_ASF OR FSR_TLBMCF OR FSR_TLBLKF)"
definition FSR_FAULT :: u32 where
  "FSR_FAULT = (FSR_MULTI OR FSR_SS OR FSR_UUT OR FSR_EF OR FSR_PF OR FSR_TF OR FSR_IGN)"
definition FSYNR0_WNR :: u32 where "FSYNR0_WNR = 0x10"

definition IMPL_DEF1_MICRO_MMU_CTRL :: nat where "IMPL_DEF1_MICRO_MMU_CTRL = 0"
definition MICRO_MMU_CTRL_LOCAL_HALT_REQ :: u32 where "MICRO_MMU_CTRL_LOCAL_HALT_REQ = 4"
definition MICRO_MMU_CTRL_IDLE :: u32 where "MICRO_MMU_CTRL_IDLE = 8"

text \<open>\<open>PHYS_MASK\<close> of the 64-bit ARM architecture headers (48 physical address bits).\<close>

definition PHYS_MASK :: u64 where "PHYS_MASK = 0xffffffffffff"

definition ARM_SMMU_GR0_NS :: "machine \<Rightarrow> nat \<Rightarrow> addr" where
  "ARM_SMMU_GR0_NS s off =
     (GR0, (if options s AND ARM_SMMU_OPT_SECURE_CFG_ACCESS \<noteq> 0 then 0x400 else 0) + off)"

definition ARM_SMMU_CB :: "arm_smmu_domain \<Rightarrow> nat \<Rightarrow> addr" where
  "ARM_SMMU_CB d off = (CB (unat (cbndx (cfg d))), off)"

section \<open>TLB maintenance, halting and the hardware translation probe\<close>

text \<open>\<open>__arm_smmu_tlb_sync\<close>: the status register is read until the active bit clears; the
  read that makes \<open>++count\<close> reach \<open>TLB_LOOP_TIMEOUT\<close> gives up. The argument counts the
  reads that are left.\<close>

fun tlb_sync_poll :: "env \<Rightarrow> nat \<Rightarrow> machine \<Rightarrow> machine" where
  "tlb_sync_poll env 0 s = s"
| "tlb_sync_poll env (Suc n) s =
     (case readl_relaxed env (GR0, ARM_SMMU_GR0_sTLBGSTATUS) s of (v, s1) \<Rightarrow>
        if v AND sTLBGSTATUS_GSACTIVE \<noteq> 0 then
          (if n = 0 then log err_tlb_sync_timed_out s1 else tlb_sync_poll env n s1)
        else s1)"

definition arm_smmu_tlb_sync_global :: "env \<Rightarrow> machine \<Rightarrow> machine" where
  "arm_smmu_tlb_sync_global env s =
     tlb_sync_poll env TLB_LOOP_TIMEOUT (writel_relaxed 0 (GR0, ARM_SMMU_GR0_sTLBGSYNC) s)"

definition arm_smmu_tlb_sync_cb :: "env \<Rightarrow> nat \<Rightarrow> machine \<Rightarrow> machine" where
  "arm_smmu_tlb_sync_cb env n s =
     (case readl_poll_timeout_atomic env (CB n, ARM_SMMU_CB_TLBSTATUS)
             (writel_relaxed 0 (CB n, ARM_SMMU_CB_TLBSYNC) s) of
        (t, s1) \<Rightarrow> if t then log err_tlbsync_timeout s1 else s1)"

definition arm_smmu_tlb_inv_context :: "env \<Rightarrow> arm_smmu_domain \<Rightarrow> machine \<Rightarrow> machine" where
  "arm_smmu_tlb_inv_context env d s =
     (if \<not> smmu d then s
      else if cbar (cfg d) \<noteq> CBAR_TYPE_S2_TRANS then
        arm_smmu_tlb_sync_cb env (unat (cbndx (cfg d)))
          (writel_relaxed (ucast (asid (cfg d))) (ARM_SMMU_CB d ARM_SMMU_CB_S1_TLBIASID) s)
      else
        arm_smmu_tlb_sync_global env
          (writel_relaxed (ucast (vmid (cfg d))) (GR0, ARM_SMMU_GR0_TLBIVMID) s))"

definition arm_smmu_restore_sec_cfg :: "env \<Rightarrow> machine \<Rightarrow> int \<times> machine" where
  "arm_smmu_restore_sec_cfg env s =
     (if \<not> arm_smmu_is_static_cb s then (0, s)
      else
        (case call env scm_restore_sec_cfg s of (r, s1) \<Rightarrow>
           if r \<noteq> 0 then (- errno_code EINVAL, log err_scm_restore_failed s1) else (0, s1)))"

definition arm_smmu_wait_for_halt :: "env \<Rightarrow> machine \<Rightarrow> int \<times> machine" where
  "arm_smmu_wait_for_halt env s =
     (case readl_poll_timeout_atomic env (IMPL_DEF1, IMPL_DEF1_MICRO_MMU_CTRL) s of
        (t, s1) \<Rightarrow> if t then (- errno_code EBUSY, log err_couldnt_halt s1) else (0, s1))"

definition arm_smmu_halt' :: "env \<Rightarrow> bool \<Rightarrow> machine \<Rightarrow> int \<times> machine" where
  "arm_smmu_halt' env wait s =
     (case readl_relaxed env (IMPL_DEF1, IMPL_DEF1_MICRO_MMU_CTRL) s of (reg, s1) \<Rightarrow>
        let reg = reg OR MICRO_MMU_CTRL_LOCAL_HALT_REQ in
        if arm_smmu_is_static_cb s1 then
          (case call env (scm_io_write (IMPL_DEF1, IMPL_DEF1_MICRO_MMU_CTRL) reg) s1 of
             (r, s2) \<Rightarrow>
               if r \<noteq> 0 then (- errno_code EINVAL, log err_scm_io_write_fail s2)
               else if wait then arm_smmu_wait_for_halt env s2 else (0, s2))
        else
          (let s2 = writel_relaxed reg (IMPL_DEF1, IMPL_DEF1_MICRO_MMU_CTRL) s1
           in if wait then arm_smmu_wait_for_halt env s2 else (0, s2)))"

definition arm_smmu_halt :: "env \<Rightarrow> machine \<Rightarrow> int \<times> machine" where
  "arm_smmu_halt env s = arm_smmu_halt' env True s"

definition arm_smmu_halt_nowait :: "env \<Rightarrow> machine \<Rightarrow> int \<times> machine" where
  "arm_smmu_halt_nowait env s = arm_smmu_halt' env False s"

definition arm_smmu_resume :: "env \<Rightarrow> machine \<Rightarrow> machine" where
  "arm_smmu_resume env s =
     (case arm_smmu_restore_sec_cfg env s of (r, s1) \<Rightarrow>
        if r \<noteq> 0 then s1
        else
          (case readl_relaxed env (IMPL_DEF1, IMPL_DEF1_MICRO_MMU_CTRL) s1 of (reg, s2) \<Rightarrow>
             let reg = reg AND NOT MICRO_MMU_CTRL_LOCAL_HALT_REQ in
             if arm_smmu_is_static_cb s2 then
               (case call env (scm_io_write (IMPL_DEF1, IMPL_DEF1_MICRO_MMU_CTRL) reg) s2 of
                  (r, s3) \<Rightarrow> if r \<noteq> 0 then log err_scm_io_write_fail s3 else s3)
             else writel_relaxed reg (IMPL_DEF1, IMPL_DEF1_MICRO_MMU_CTRL) s2))"

text \<open>\<open>arm_smmu_iova_to_phys\<close>: the software table walk of the page-table library.\<close>

definition arm_smmu_iova_to_phys :: "env \<Rightarrow> arm_smmu_domain \<Rightarrow> u64 \<Rightarrow> machine \<Rightarrow> u64 \<times> machine" where
  "arm_smmu_iova_to_phys env d iova s =
     (if \<not> pgtbl_ops d then (0, s)
      else (case call env (io_pgtable_iova_to_phys iova) s of (r, s1) \<Rightarrow> (word_of_int r, s1)))"

text \<open>The \<open>err_resume\<close> and \<open>err_unlock\<close> exits of \<open>__arm_smmu_iova_to_phys_hard\<close>.\<close>

definition iova_to_phys_hard_err_unlock ::
  "env \<Rightarrow> arm_smmu_domain \<Rightarrow> u64 \<Rightarrow> machine \<Rightarrow> u64 \<times> machine" where
  "iova_to_phys_hard_err_unlock env d iova s =
     (case arm_smmu_iova_to_phys env d iova (arm_smmu_disable_clocks env s) of
        (phys, s1) \<Rightarrow> (0, log err_iova_to_phys_failed s1))"

definition arm_smmu_iova_to_phys_hard' ::
  "env \<Rightarrow> arm_smmu_domain \<Rightarrow> u64 \<Rightarrow> bool \<Rightarrow> machine \<Rightarrow> u64 \<times> machine" where
  "arm_smmu_iova_to_phys_hard' env d iova do_halt s =
     (case arm_smmu_enable_clocks env s of (r, s1) \<Rightarrow>
        if r \<noteq> 0 then (0, s1)
        else
          (case (if do_halt then arm_smmu_halt env s1 else (0, s1)) of (h, s2) \<Rightarrow>
             if do_halt \<and> h \<noteq> 0 then iova_to_phys_hard_err_unlock env d iova s2
             else
               (let va = iova AND NOT 0xfff;
                    s3 = (if version s2 = ARM_SMMU_V2
                          then writeq_relaxed va (ARM_SMMU_CB d ARM_SMMU_CB_ATS1PR) s2
                          else writel_relaxed (ucast va) (ARM_SMMU_CB d ARM_SMMU_CB_ATS1PR) s2)
                in case readl_poll_timeout_atomic env (ARM_SMMU_CB d ARM_SMMU_CB_ATSR) s3 of
                     (t, s4) \<Rightarrow>
                       if t then
                         (let s5 = log err_iova_to_phys_timed_out s4;
                              s6 = (if do_halt then arm_smmu_resume env s5 else s5)
                          in iova_to_phys_hard_err_unlock env d iova s6)
                       else
                         (case readl_relaxed env (ARM_SMMU_CB d ARM_SMMU_CB_PAR_LO) s4 of
                            (lo, s5) \<Rightarrow>
                         (case readl_relaxed env (ARM_SMMU_CB d ARM_SMMU_CB_PAR_HI) s5 of
                            (hi, s6) \<Rightarrow>
                              let phys = ucast lo OR push_bit 32 (ucast hi);
                                  s7 = (if do_halt then arm_smmu_resume env s6 else s6)
                              in if phys AND CB_PAR_F \<noteq> 0 then
                                   (0, arm_smmu_disable_clocks env (log err_translation_fault s7))
                                 else
                                   ((phys AND (PHYS_MASK AND NOT 0xfff)) OR (iova AND 0xfff),
                                    arm_smmu_disable_clocks env s7))))))"

definition arm_smmu_iova_to_phys_hard ::
  "env \<Rightarrow> arm_smmu_domain \<Rightarrow> u64 \<Rightarrow> machine \<Rightarrow> u64 \<times> machine" where
  "arm_smmu_iova_to_phys_hard env d iova s = arm_smmu_iova_to_phys_hard' env d iova True s"

definition arm_smmu_iova_to_phys_hard_no_halt ::
  "env \<Rightarrow> arm_smmu_domain \<Rightarrow> u64 \<Rightarrow> machine \<Rightarrow> u64 \<times> machine" where
  "arm_smmu_iova_to_phys_hard_no_halt env d iova s =
     arm_smmu_iova_to_phys_hard' env d iova False s"

section \<open>Context fault handling\<close>

datatype irqreturn = IRQ_NONE | IRQ_HANDLED

text \<open>\<open>BUG()\<close> stops the system; a function that reaches it returns \<open>Inl BUG\<close>. So does
  the use of a \<open>NULL\<close> device pointer.\<close>

datatype fatal = BUG | NULL_dereference

text \<open>\<open>arm_smmu_verify_fault\<close> up to the first probe: halt request, termination of the
  stalled transaction, clearing of the fault status and stall mode switched off. It yields
  the control register value to restore.\<close>

definition verify_fault_prologue ::
  "env \<Rightarrow> arm_smmu_domain \<Rightarrow> u32 \<Rightarrow> machine \<Rightarrow> u32 \<times> machine" where
  "verify_fault_prologue env d fsr s =
     (let s1 = snd (arm_smmu_halt_nowait env s);
          s2 = writel_relaxed RESUME_TERMINATE (ARM_SMMU_CB d ARM_SMMU_CB_RESUME) s1;
          s3 = snd (arm_smmu_wait_for_halt env s2);
          s4 = writel_relaxed fsr (ARM_SMMU_CB d ARM_SMMU_CB_FSR) s3
      in case readl_relaxed env (ARM_SMMU_CB d ARM_SMMU_CB_SCTLR) s4 of (sctlr_orig, s5) \<Rightarrow>
           (sctlr_orig,
            writel_relaxed (sctlr_orig AND NOT SCTLR_CFCFG) (ARM_SMMU_CB d ARM_SMMU_CB_SCTLR) s5))"

definition arm_smmu_verify_fault ::
  "env \<Rightarrow> arm_smmu_domain \<Rightarrow> u64 \<Rightarrow> u32 \<Rightarrow> machine \<Rightarrow> u64 \<times> machine" where
  "arm_smmu_verify_fault env d iova fsr s =
     (case verify_fault_prologue env d fsr s of (sctlr_orig, s6) \<Rightarrow>
      case arm_smmu_iova_to_phys_hard_no_halt env d iova s6 of (phys, s7) \<Rightarrow>
        (case (if phys = 0 then
                 (case arm_smmu_iova_to_phys_hard_no_halt env d iova
                         (arm_smmu_tlb_inv_context env d (log err_atos_failed_retry s7)) of
                    (phys, s8) \<Rightarrow>
                      (phys, if phys \<noteq> 0 then log err_atos_succeeded_second_time s8
                             else log err_atos_still_failed s8))
               else (phys, s7)) of
           (phys, s9) \<Rightarrow>
             (phys, arm_smmu_resume env
                      (writel_relaxed sctlr_orig (ARM_SMMU_CB d ARM_SMMU_CB_SCTLR) s9))))"

definition fault_flags :: "u32 \<Rightarrow> u32 \<Rightarrow> fault_flag list" where
  "fault_flags fsr fsynr =
     (if fsynr AND FSYNR0_WNR \<noteq> 0 then [IOMMU_FAULT_WRITE] else [IOMMU_FAULT_READ]) @
     (if fsr AND FSR_TF \<noteq> 0 then [IOMMU_FAULT_TRANSLATION] else []) @
     (if fsr AND FSR_PF \<noteq> 0 then [IOMMU_FAULT_PERMISSION] else []) @
     (if fsr AND FSR_EF \<noteq> 0 then [IOMMU_FAULT_EXTERNAL] else []) @
     (if fsr AND FSR_SS \<noteq> 0 then [IOMMU_FAULT_TRANSACTION_STALLED] else [])"

text \<open>The tail of \<open>arm_smmu_context_fault\<close> from \<open>if (tmp != -EBUSY)\<close> on; \<open>resume\<close> is
  \<open>RESUME_TERMINATE\<close> on both branches that reach it.\<close>

definition context_fault_finish ::
  "env \<Rightarrow> arm_smmu_domain \<Rightarrow> bool \<Rightarrow> u32 \<Rightarrow> int \<Rightarrow> irqreturn \<Rightarrow> machine \<Rightarrow>
     (fatal + irqreturn) \<times> machine" where
  "context_fault_finish env d ctx_hang_errata fsr tmp ret s =
     (let s1 =
        (if tmp \<noteq> - errno_code EBUSY then
           (let s2 = writel_relaxed fsr (ARM_SMMU_CB d ARM_SMMU_CB_FSR) s
            in if fsr AND FSR_SS \<noteq> 0 then
                 writel_relaxed RESUME_TERMINATE (ARM_SMMU_CB d ARM_SMMU_CB_RESUME)
                   (if ctx_hang_errata then arm_smmu_tlb_sync_cb env (unat (cbndx (cfg d))) s2
                    else s2)
               else s2)
         else s)
      in (Inr ret, arm_smmu_disable_clocks env s1))"

definition arm_smmu_context_fault ::
  "env \<Rightarrow> arm_smmu_domain \<Rightarrow> machine \<Rightarrow> (fatal + irqreturn) \<times> machine" where
  "arm_smmu_context_fault env d s =
     (if \<not> smmu d then (Inr IRQ_HANDLED, log err_fault_on_detached_domain s)
      else
        let ctx_hang_errata = (options s AND ARM_SMMU_OPT_ERRATA_CTX_FAULT_HANG \<noteq> 0);
            fatal_asf = (options s AND ARM_SMMU_OPT_FATAL_ASF \<noteq> 0)
        in case arm_smmu_enable_clocks env s of (r, s1) \<Rightarrow>
          if r \<noteq> 0 then (Inr IRQ_NONE, s1)
          else
            (case readl_relaxed env (ARM_SMMU_CB d ARM_SMMU_CB_FSR) s1 of (fsr, s2) \<Rightarrow>
               if fsr AND FSR_FAULT = 0 then (Inr IRQ_NONE, arm_smmu_disable_clocks env s2)
               else if fatal_asf \<and> fsr AND FSR_ASF \<noteq> 0 then
                 (Inl BUG, log err_address_size_fault s2)
               else
                 (case readl_relaxed env (ARM_SMMU_CB d ARM_SMMU_CB_FSYNR0) s2 of (fsynr, s3) \<Rightarrow>
                  case readl_relaxed env (ARM_SMMU_CB d ARM_SMMU_CB_FAR_LO) s3 of (lo, s4) \<Rightarrow>
                  case readl_relaxed env (ARM_SMMU_CB d ARM_SMMU_CB_FAR_HI) s4 of (hi, s5) \<Rightarrow>
                    let iova = ucast lo OR push_bit 32 (ucast hi) in
                  case arm_smmu_iova_to_phys env d iova s5 of (phys_soft, s6) \<Rightarrow>
                  case readl_relaxed env
                         (GR1, ARM_SMMU_GR1_CBFRSYNRA (unat (cbndx (cfg d)))) s6 of (sidr, s7) \<Rightarrow>
                  case call env (report_iommu_fault iova (fault_flags fsr fsynr)) s7 of
                    (tmp, s8) \<Rightarrow>
                      if tmp = 0 \<or> tmp = - errno_code EBUSY then
                        context_fault_finish env d ctx_hang_errata fsr tmp IRQ_HANDLED
                          (log dbg_fault_handled_by_client s8)
                      else
                        (case arm_smmu_verify_fault env d iova fsr s8 of (phys_atos, s9) \<Rightarrow>
                         case call env ratelimit s9 of (rl, s10) \<Rightarrow>
                           let s11 =
                             (if rl \<noteq> 0 then
                                (let s' = log err_unhandled_context_fault s10
                                 in if phys_soft = 0 then log err_software_table_walk_failed s'
                                    else s')
                              else s10)
                           in if \<not> non_fatal_faults d then
                                (Inl BUG, log err_unhandled_faults_fatal s11)
                              else
                                context_fault_finish env d ctx_hang_errata fsr tmp IRQ_NONE
                                  s11))))"

text \<open>The writes to the fault-status and RESUME registers of a context bank.\<close>

fun fault_write :: "nat \<Rightarrow> mmio_event \<Rightarrow> bool" where
  "fault_write n (Writel a v) = (a = (CB n, ARM_SMMU_CB_FSR) \<or> a = (CB n, ARM_SMMU_CB_RESUME))"
| "fault_write n (Writeq a v) = (a = (CB n, ARM_SMMU_CB_FSR) \<or> a = (CB n, ARM_SMMU_CB_RESUME))"
| "fault_write n _ = False"

text \<open>Those writes together with the reads of the fault-status register.\<close>

fun fault_access :: "nat \<Rightarrow> mmio_event \<Rightarrow> bool" where
  "fault_access n (Readl a v) = (a = (CB n, ARM_SMMU_CB_FSR))"
| "fault_access n e = fault_write n e"

fun is_report :: "ext_call \<times> int \<Rightarrow> bool" where
  "is_report (report_iommu_fault iova flags, r) = True"
| "is_report _ = False"

text \<open>What a run added to the machine's histories.\<close>

definition new_mmio :: "machine \<Rightarrow> machine \<Rightarrow> mmio_event list" where
  "new_mmio s s' = drop (length (mmio s)) (mmio s')"

definition new_calls :: "machine \<Rightarrow> machine \<Rightarrow> (ext_call \<times> int) list" where
  "new_calls s s' = drop (length (calls s)) (calls s')"

definition new_logs :: "machine \<Rightarrow> machine \<Rightarrow> log_msg list" where
  "new_logs s s' = drop (length (logs s)) (logs s')"

text \<open>The history of accesses to the fault registers of a bank, and of fault reports to the
  domain owner.\<close>

definition fault_trace :: "nat \<Rightarrow> machine \<Rightarrow> mmio_event list" where
  "fault_trace n s = filter (fault_access n) (mmio s)"

definition reports :: "machine \<Rightarrow> (ext_call \<times> int) list" where
  "reports s = filter is_report (calls s)"

text \<open>The RESUME write of a stalled transaction, and the accesses to the fault registers of
  bank \<open>n\<close> made by a handler run that read \<open>fsr\<close> and got \<open>tmp\<close> from the owner's
  callback.\<close>

definition resume_if_stalled :: "nat \<Rightarrow> u32 \<Rightarrow> mmio_event list" where
  "resume_if_stalled n fsr =
     (if fsr AND FSR_SS \<noteq> 0 then [Writel (CB n, ARM_SMMU_CB_RESUME) RESUME_TERMINATE] else [])"

definition fault_register_accesses :: "nat \<Rightarrow> bool \<Rightarrow> int \<Rightarrow> u32 \<Rightarrow> mmio_event list" where
  "fault_register_accesses n non_fatal tmp fsr =
     Readl (CB n, ARM_SMMU_CB_FSR) fsr #
     (if tmp = - errno_code EBUSY then []
      else if tmp = 0 then Writel (CB n, ARM_SMMU_CB_FSR) fsr # resume_if_stalled n fsr
      else [Writel (CB n, ARM_SMMU_CB_RESUME) RESUME_TERMINATE,
            Writel (CB n, ARM_SMMU_CB_FSR) fsr] @
           (if non_fatal then Writel (CB n, ARM_SMMU_CB_FSR) fsr # resume_if_stalled n fsr
            else []))"

text \<open>An environment whose fault-status register of bank 0 reads \<open>fsr\<close>, whose other
  registers read 0, and in which the owner's callback returns \<open>tmp\<close> and every other call
  succeeds; and a non-fatal domain attached on bank 0.\<close>

definition env_fault :: "int \<Rightarrow> u32 \<Rightarrow> env" where
  "env_fault tmp fsr =
     \<lparr>ext_ret = (\<lambda>s c. case c of report_iommu_fault i f \<Rightarrow> tmp | _ \<Rightarrow> 0),
      hw_readl = (\<lambda>s a. if a = (CB 0, ARM_SMMU_CB_FSR) then fsr else 0),
      hw_readq = (\<lambda>s a. 0),
      hw_poll_timeout = (\<lambda>s a. False)\<rparr>"

definition domain_attached :: arm_smmu_domain where
  "domain_attached = arm_smmu_domain_alloc
     \<lparr>smmu := True, pgtbl_ops := True,
      cfg := \<lparr>cbndx = 0, irptndx = 0, cbar = CBAR_TYPE_S1_TRANS_S2_BYPASS, procid = 0,
              asid = 1, vmid = 2\<rparr>,
      non_fatal_faults := True\<rparr>"

text \<open>The writes that start a hardware translation probe on bank \<open>n\<close>, invalidate the
  TLB of a context or start the TLB synchronisation, and the log lines of the probe and
  its retry.\<close>

fun probe_write :: "nat \<Rightarrow> mmio_event \<Rightarrow> bool" where
  "probe_write n (Writel a v) =
     (a = (CB n, ARM_SMMU_CB_ATS1PR) \<or> a = (CB n, ARM_SMMU_CB_S1_TLBIASID) \<or>
      a = (GR0, ARM_SMMU_GR0_TLBIVMID) \<or> a = (CB n, ARM_SMMU_CB_TLBSYNC) \<or>
      a = (GR0, ARM_SMMU_GR0_sTLBGSYNC))"
| "probe_write n (Writeq a v) = (a = (CB n, ARM_SMMU_CB_ATS1PR))"
| "probe_write n _ = False"

definition probe_trace :: "nat \<Rightarrow> machine \<Rightarrow> mmio_event list" where
  "probe_trace n s = filter (probe_write n) (mmio s)"

fun is_probe_log :: "log_msg \<Rightarrow> bool" where
  "is_probe_log err_atos_failed_retry = True"
| "is_probe_log err_atos_succeeded_second_time = True"
| "is_probe_log err_atos_still_failed = True"
| "is_probe_log err_iova_to_phys_timed_out = True"
| "is_probe_log _ = False"

definition probe_logs :: "machine \<Rightarrow> log_msg list" where
  "probe_logs s = filter is_probe_log (logs s)"

text \<open>The write that starts a probe of \<open>iova\<close>, the write that invalidates the TLB
  entries of the domain's context and the write that starts the synchronisation it waits
  for.\<close>

definition ats1pr_write :: "machine \<Rightarrow> arm_smmu_domain \<Rightarrow> u64 \<Rightarrow> mmio_event" where
  "ats1pr_write s d iova =
     (if version s = ARM_SMMU_V2
      then Writeq (ARM_SMMU_CB d ARM_SMMU_CB_ATS1PR) (iova AND NOT 0xfff)
      else Writel (ARM_SMMU_CB d ARM_SMMU_CB_ATS1PR) (ucast (iova AND NOT 0xfff)))"

definition tlbi_context_write :: "arm_smmu_domain \<Rightarrow> mmio_event" where
  "tlbi_context_write d =
     (if cbar (cfg d) \<noteq> CBAR_TYPE_S2_TRANS
      then Writel (ARM_SMMU_CB d ARM_SMMU_CB_S1_TLBIASID) (ucast (asid (cfg d)))
      else Writel (GR0, ARM_SMMU_GR0_TLBIVMID) (ucast (vmid (cfg d))))"

definition tlb_sync_write :: "arm_smmu_domain \<Rightarrow> mmio_event" where
  "tlb_sync_write d =
     (if cbar (cfg d) \<noteq> CBAR_TYPE_S2_TRANS
      then Writel (ARM_SMMU_CB d ARM_SMMU_CB_TLBSYNC) 0
      else Writel (GR0, ARM_SMMU_GR0_sTLBGSYNC) 0)"

text \<open>Whether a probe started in \<open>s\<close> gets its clocks, and whether it then gives up polling
  \<open>ATSR\<close> (for a probe without halting).\<close>

definition probe_clocked :: "env \<Rightarrow> machine \<Rightarrow> bool" where
  "probe_clocked env s = (fst (arm_smmu_enable_clocks env s) = 0)"

definition probe_timed_out :: "env \<Rightarrow> arm_smmu_domain \<Rightarrow> u64 \<Rightarrow> machine \<Rightarrow> bool" where
  "probe_timed_out env d iova s =
     (probe_clocked env s \<and>
      (let s2 = snd (arm_smmu_enable_clocks env s);
           va = iova AND NOT 0xfff;
           s3 = (if version s2 = ARM_SMMU_V2
                 then writeq_relaxed va (ARM_SMMU_CB d ARM_SMMU_CB_ATS1PR) s2
                 else writel_relaxed (ucast va) (ARM_SMMU_CB d ARM_SMMU_CB_ATS1PR) s2)
       in fst (readl_poll_timeout_atomic env (ARM_SMMU_CB d ARM_SMMU_CB_ATSR) s3)))"

text \<open>The probe's reads of the physical address register: the state in which the probe,
  its clocks on, has written \<open>ATS1PR\<close> and polled \<open>ATSR\<close>; the halves of \<open>PAR\<close> the
  hardware answers there, the low half first; and the address the probe makes of them,
  0 when the fault bit is set.\<close>

definition probe_polled :: "env \<Rightarrow> arm_smmu_domain \<Rightarrow> u64 \<Rightarrow> machine \<Rightarrow> machine" where
  "probe_polled env d iova s =
     (let s2 = snd (arm_smmu_enable_clocks env s);
          va = iova AND NOT 0xfff;
          s3 = (if version s2 = ARM_SMMU_V2
                then writeq_relaxed va (ARM_SMMU_CB d ARM_SMMU_CB_ATS1PR) s2
                else writel_relaxed (ucast va) (ARM_SMMU_CB d ARM_SMMU_CB_ATS1PR) s2)
      in snd (readl_poll_timeout_atomic env (ARM_SMMU_CB d ARM_SMMU_CB_ATSR) s3))"

definition probe_par_lo :: "env \<Rightarrow> arm_smmu_domain \<Rightarrow> u64 \<Rightarrow> machine \<Rightarrow> u32" where
  "probe_par_lo env d iova s =
     hw_readl env (probe_polled env d iova s) (ARM_SMMU_CB d ARM_SMMU_CB_PAR_LO)"

definition probe_par_hi :: "env \<Rightarrow> arm_smmu_domain \<Rightarrow> u64 \<Rightarrow> machine \<Rightarrow> u32" where
  "probe_par_hi env d iova s =
     hw_readl env
       (snd (readl_relaxed env (ARM_SMMU_CB d ARM_SMMU_CB_PAR_LO) (probe_polled env d iova s)))
       (ARM_SMMU_CB d ARM_SMMU_CB_PAR_HI)"

definition par_result :: "u32 \<Rightarrow> u32 \<Rightarrow> u64 \<Rightarrow> u64" where
  "par_result lo hi iova =
     (let phys = ucast lo OR push_bit 32 (ucast hi)
      in if phys AND CB_PAR_F \<noteq> 0 then 0
         else (phys AND (PHYS_MASK AND NOT 0xfff)) OR (iova AND 0xfff))"

text \<open>Hardware on which the probe of bank 0 times out until the TLB of the context has
  been invalidated, and then translates to the page at \<open>0x80005000\<close>.\<close>

definition env_retry :: env where
  "env_retry =
     \<lparr>ext_ret = (\<lambda>s c. 0),
      hw_readl = (\<lambda>s a. if a = (CB 0, ARM_SMMU_CB_PAR_LO) then 0x80005000 else 0),
      hw_readq = (\<lambda>s a. 0),
      hw_poll_timeout = (\<lambda>s a. a = (CB 0, ARM_SMMU_CB_ATSR) \<and>
         Writel (CB 0, ARM_SMMU_CB_S1_TLBIASID) 1 \<notin> set (probe_trace 0 s))\<rparr>"

section \<open>Suspend and resume\<close>

text \<open>The registers saved per context bank, in the order of the body of the loop of
  \<open>arm_smmu_pm_suspend\<close>; \<open>True\<close> marks the 64-bit registers (\<open>readq_relaxed\<close>).\<close>

definition cb_save_registers :: "nat \<Rightarrow> (addr \<times> bool) list" where
  "cb_save_registers j =
     [((CB j, ARM_SMMU_CB_SCTLR), False),
      ((CB j, ARM_SMMU_CB_ACTLR), False),
      ((CB j, ARM_SMMU_CB_TTBCR2), False),
      ((CB j, ARM_SMMU_CB_TTBR0), True),
      ((CB j, ARM_SMMU_CB_TTBR1), True),
      ((CB j, ARM_SMMU_CB_TTBCR), False),
      ((CB j, ARM_SMMU_CB_CONTEXTIDR), False),
      ((CB j, ARM_SMMU_CB_S1_MAIR0), False),
      ((CB j, ARM_SMMU_CB_S1_MAIR1), False),
      ((GR1, ARM_SMMU_GR1_CBA2R j), False),
      ((GR1, ARM_SMMU_GR1_CBAR j), False)]"

text \<open>The registers saved per mapping group, and the global enable register at the end.\<close>

definition smr_save_registers :: "nat \<Rightarrow> (addr \<times> bool) list" where
  "smr_save_registers j =
     [((GR0, ARM_SMMU_GR0_S2CR j), False), ((GR0, ARM_SMMU_GR0_SMR j), False)]"

definition saved_cb_registers :: "machine \<Rightarrow> (addr \<times> bool) list" where
  "saved_cb_registers s = concat (map cb_save_registers [0..<unat (num_context_banks s)])"

definition saved_global_registers :: "machine \<Rightarrow> (addr \<times> bool) list" where
  "saved_global_registers s =
     concat (map smr_save_registers [0..<unat (num_mapping_groups s)]) @
     [(ARM_SMMU_GR0_NS s ARM_SMMU_GR0_sCR0, False)]"

text \<open>\<open>regs[k++] = readl_relaxed(...)\<close> and \<open>reg_global[k++] = readl_relaxed(...)\<close>. The
  buffers are arrays of fixed size; a store past the end, undefined in C, leaves the
  model's list as it is.\<close>

fun save_reg :: "env \<Rightarrow> nat \<times> machine \<Rightarrow> addr \<times> bool \<Rightarrow> nat \<times> machine" where
  "save_reg env (k, s) (a, wide) =
     (if wide then
        (case readq_relaxed env a s of (v, s1) \<Rightarrow> (Suc k, s1\<lparr>regs := (regs s1)[k := v]\<rparr>))
      else
        (case readl_relaxed env a s of (v, s1) \<Rightarrow>
           (Suc k, s1\<lparr>regs := (regs s1)[k := ucast v]\<rparr>)))"

fun save_global :: "env \<Rightarrow> nat \<times> machine \<Rightarrow> addr \<times> bool \<Rightarrow> nat \<times> machine" where
  "save_global env (k, s) (a, wide) =
     (if wide then
        (case readq_relaxed env a s of (v, s1) \<Rightarrow>
           (Suc k, s1\<lparr>reg_global := (reg_global s1)[k := v]\<rparr>))
      else
        (case readl_relaxed env a s of (v, s1) \<Rightarrow>
           (Suc k, s1\<lparr>reg_global := (reg_global s1)[k := ucast v]\<rparr>)))"

text \<open>\<open>writel_relaxed(regs[k++], ...)\<close>: a 32-bit write takes the low half of the buffer
  entry.\<close>

fun restore_reg :: "nat \<times> machine \<Rightarrow> addr \<times> bool \<Rightarrow> nat \<times> machine" where
  "restore_reg (k, s) (a, wide) =
     (if wide then (Suc k, writeq_relaxed (regs s ! k) a s)
      else (Suc k, writel_relaxed (ucast (regs s ! k)) a s))"

fun restore_global :: "nat \<times> machine \<Rightarrow> addr \<times> bool \<Rightarrow> nat \<times> machine" where
  "restore_global (k, s) (a, wide) =
     (if wide then (Suc k, writeq_relaxed (reg_global s ! k) a s)
      else (Suc k, writel_relaxed (ucast (reg_global s ! k)) a s))"

definition arm_smmu_pm_suspend :: "env \<Rightarrow> machine \<Rightarrow> int \<times> machine" where
  "arm_smmu_pm_suspend env s =
     (if attach_count s = 0 then (0, s)
      else
        (case arm_smmu_enable_clocks env s of (r, s1) \<Rightarrow>
           if r \<noteq> 0 then (- errno_code EINVAL, log err_failed_to_enable_clocks s1)
           else
             (let s2 = snd (foldl (save_reg env) (0, s1) (saved_cb_registers s1));
                  s3 = snd (foldl (save_global env) (0, s2) (saved_global_registers s2))
              in (0, arm_smmu_disable_clocks env s3))))"

definition arm_smmu_pm_resume :: "env \<Rightarrow> machine \<Rightarrow> int \<times> machine" where
  "arm_smmu_pm_resume env s =
     (if attach_count s = 0 then (0, s)
      else
        (case arm_smmu_enable_clocks env s of (r, s1) \<Rightarrow>
           if r \<noteq> 0 then (- errno_code EINVAL, log err_failed_to_enable_clocks s1)
           else
             (let s2 = snd (foldl restore_reg (0, s1) (saved_cb_registers s1));
                  s3 = snd (foldl restore_global (0, s2) (saved_global_registers s2));
                  s4 = writel_relaxed 0 (GR0, ARM_SMMU_GR0_TLBIALLH) s3;
                  s5 = writel_relaxed 0 (GR0, ARM_SMMU_GR0_TLBIALLNSNH) s4;
                  s6 = arm_smmu_tlb_sync_global env s5
              in (0, arm_smmu_disable_clocks env s6))))"

text \<open>The write that puts back what a read saw, the value a read stores in the buffer,
  and the register file that a sequence of writes leaves behind.\<close>

fun write_of_read :: "mmio_event \<Rightarrow> mmio_event" where
  "write_of_read (Readl a v) = Writel a v"
| "write_of_read (Readq a v) = Writeq a v"
| "write_of_read e = e"

fun stored :: "mmio_event \<Rightarrow> u64" where
  "stored (Readl a v) = ucast v"
| "stored (Readq a v) = v"
| "stored (Writel a v) = ucast v"
| "stored (Writeq a v) = v"
| "stored (Poll a t) = 0"

fun reads_register :: "addr \<times> bool \<Rightarrow> mmio_event \<Rightarrow> bool" where
  "reads_register (a, wide) (Readl a' v) = (a' = a \<and> \<not> wide)"
| "reads_register (a, wide) (Readq a' v) = (a' = a \<and> wide)"
| "reads_register (a, wide) e = False"

fun replay :: "(addr \<Rightarrow> u64) \<Rightarrow> mmio_event \<Rightarrow> (addr \<Rightarrow> u64)" where
  "replay f (Writel a v) = f(a := ucast v)"
| "replay f (Writeq a v) = f(a := v)"
| "replay f e = f"

fun is_status_read :: "mmio_event \<Rightarrow> bool" where
  "is_status_read (Readl a v) = (a = (GR0, ARM_SMMU_GR0_sTLBGSTATUS))"
| "is_status_read e = False"

fun writes_register :: "addr \<Rightarrow> mmio_event \<Rightarrow> bool" where
  "writes_register a (Writel a' v) = (a' = a)"
| "writes_register a (Writeq a' v) = (a' = a)"
| "writes_register a e = False"

text \<open>The registers of a snapshot in capture order. The snapshot fits when the buffers
  have their declared sizes (\<open>ARM_SMMU_MAX_CBS * SAVE_ARM_SMMU_MAX_CNT\<close> and
  \<open>MAX_GLOBAL_REG_SAVE_ENTRIES\<close>) and the device has no more context banks and mapping
  groups than the driver's maxima.\<close>

definition saved_registers :: "machine \<Rightarrow> (addr \<times> bool) list" where
  "saved_registers s = saved_cb_registers s @ saved_global_registers s"

definition snapshot_fits :: "machine \<Rightarrow> bool" where
  "snapshot_fits s \<longleftrightarrow>
     length (regs s) = ARM_SMMU_MAX_CBS * 11 \<and>
     length (reg_global s) = 2 * ARM_SMMU_MAX_SMRS + 1 \<and>
     unat (num_context_banks s) \<le> ARM_SMMU_MAX_CBS \<and>
     unat (num_mapping_groups s) \<le> ARM_SMMU_MAX_SMRS"

text \<open>The writes that end a resume: global invalidate-all (hypervisor and non-secure
  non-hypervisor entries), then the sync.\<close>

definition tlb_invalidate_all_sync :: "mmio_event list" where
  "tlb_invalidate_all_sync =
     [Writel (GR0, ARM_SMMU_GR0_TLBIALLH) 0,
      Writel (GR0, ARM_SMMU_GR0_TLBIALLNSNH) 0,
      Writel (GR0, ARM_SMMU_GR0_sTLBGSYNC) 0]"

text \<open>An environment in which enabling a clock fails, and an attached machine.\<close>

definition env_clk_fail :: env where
  "env_clk_fail =
     \<lparr>ext_ret = (\<lambda>s c. case c of clk_enable i \<Rightarrow> - 5 | _ \<Rightarrow> 0),
      hw_readl = (\<lambda>s a. 0), hw_readq = (\<lambda>s a. 0), hw_poll_timeout = (\<lambda>s a. False)\<rparr>"

definition machine_attached :: machine where
  "machine_attached = machine_off \<lparr>attach_count := 1\<rparr>"

section \<open>Page-table memory of secure domains, map and unmap\<close>

definition ARM_SMMU_CB_S1_TLBIVA :: nat where "ARM_SMMU_CB_S1_TLBIVA = 0x600"
definition ARM_SMMU_CB_S1_TLBIVAL :: nat where "ARM_SMMU_CB_S1_TLBIVAL = 0x620"
definition ARM_SMMU_CB_S2_TLBIIPAS2 :: nat where "ARM_SMMU_CB_S2_TLBIIPAS2 = 0x630"
definition ARM_SMMU_CB_S2_TLBIIPAS2L :: nat where "ARM_SMMU_CB_S2_TLBIIPAS2L = 0x638"

text \<open>The permission bits of the secure-buffer interface.\<close>

definition PERM_READ :: int where "PERM_READ = 4"
definition PERM_WRITE :: int where "PERM_WRITE = 2"
definition PERM_EXEC :: int where "PERM_EXEC = 1"

definition arm_smmu_tlb_sync :: "env \<Rightarrow> arm_smmu_domain \<Rightarrow> machine \<Rightarrow> machine" where
  "arm_smmu_tlb_sync env d s =
     (if \<not> smmu d then s else arm_smmu_tlb_sync_cb env (unat (cbndx (cfg d))) s)"

text \<open>\<open>arm_smmu_tlb_inv_range_nosync\<close> on a 64-bit kernel.\<close>

definition arm_smmu_tlb_inv_range_nosync ::
  "u64 \<Rightarrow> nat \<Rightarrow> bool \<Rightarrow> arm_smmu_domain \<Rightarrow> machine \<Rightarrow> fatal + machine" where
  "arm_smmu_tlb_inv_range_nosync iova sz leaf d s =
     (if DOMAIN_ATTR_ATOMIC \<in> attributes d \<and> \<not> smmu d then Inl BUG
      else if \<not> smmu d then Inr s
      else if cbar (cfg d) \<noteq> CBAR_TYPE_S2_TRANS then
        (let reg = ARM_SMMU_CB d (if leaf then ARM_SMMU_CB_S1_TLBIVAL else ARM_SMMU_CB_S1_TLBIVA)
         in if version s = ARM_SMMU_V1 then
              Inr (writel_relaxed (ucast ((iova AND NOT 12) OR ucast (asid (cfg d)))) reg s)
            else
              Inr (writeq_relaxed (drop_bit 12 iova OR push_bit 48 (ucast (asid (cfg d)))) reg s))
      else if version s = ARM_SMMU_V2 then
        Inr (writeq_relaxed (drop_bit 12 iova)
               (ARM_SMMU_CB d (if leaf then ARM_SMMU_CB_S2_TLBIIPAS2L else ARM_SMMU_CB_S2_TLBIIPAS2)) s)
      else Inr (writel_relaxed (ucast (vmid (cfg d))) (GR0, ARM_SMMU_GR0_TLBIVMID) s))"

text \<open>\<open>arm_smmu_secure_pool_remove\<close>: the first chunk of the wanted size leaves the pool and
  its address is returned, \<open>NULL\<close> (0) when there is none.\<close>

fun secure_pool_scan ::
  "arm_smmu_secure_pool_chunk list \<Rightarrow> nat \<Rightarrow> u64 \<times> arm_smmu_secure_pool_chunk list" where
  "secure_pool_scan [] sz = (0, [])"
| "secure_pool_scan (it # rest) sz =
     (if chunk_size it = sz then (addr' it, rest)
      else (case secure_pool_scan rest sz of (a, rest') \<Rightarrow> (a, it # rest')))"

definition arm_smmu_secure_pool_remove :: "arm_smmu_domain \<Rightarrow> nat \<Rightarrow> u64 \<times> arm_smmu_domain" where
  "arm_smmu_secure_pool_remove d sz =
     (case secure_pool_scan (secure_pool_list d) sz of
        (a, rest) \<Rightarrow> (a, d\<lparr>secure_pool_list := rest\<rparr>))"

text \<open>\<open>arm_smmu_secure_pool_add\<close>; the contents of page-table memory are not part of the
  model, so the \<open>memset\<close> leaves no trace.\<close>

definition arm_smmu_secure_pool_add ::
  "env \<Rightarrow> arm_smmu_domain \<Rightarrow> u64 \<Rightarrow> nat \<Rightarrow> machine \<Rightarrow> int \<times> arm_smmu_domain \<times> machine" where
  "arm_smmu_secure_pool_add env d a sz s =
     (case call env kmalloc_pool_chunk s of (chunk, s1) \<Rightarrow>
        if chunk = 0 then (- errno_code ENOMEM, d, s1)
        else (0, d\<lparr>secure_pool_list := \<lparr>addr' = a, chunk_size = sz\<rparr> # secure_pool_list d\<rparr>, s1))"

definition arm_smmu_unprepare_pgtable ::
  "env \<Rightarrow> arm_smmu_domain \<Rightarrow> u64 \<Rightarrow> nat \<Rightarrow> machine \<Rightarrow> fatal + arm_smmu_domain \<times> machine" where
  "arm_smmu_unprepare_pgtable env d a sz s =
     (if \<not> arm_smmu_is_master_side_secure d then Inl BUG
      else
        (case call env kzalloc_pte_info s of (p, s1) \<Rightarrow>
           if p = 0 then Inr (d, s1)
           else Inr (d\<lparr>unassign_list := unassign_list d @ [\<lparr>virt_addr = a, size' = sz\<rparr>]\<rparr>, s1)))"

definition arm_smmu_prepare_pgtable ::
  "env \<Rightarrow> u64 \<Rightarrow> arm_smmu_domain \<Rightarrow> machine \<Rightarrow> fatal + arm_smmu_domain \<times> machine" where
  "arm_smmu_prepare_pgtable env a d s =
     (if \<not> arm_smmu_is_master_side_secure d then Inl BUG
      else
        (case call env kzalloc_pte_info s of (p, s1) \<Rightarrow>
           if p = 0 then Inr (d, s1)
           else Inr (d\<lparr>pte_info_list := pte_info_list d @ [\<lparr>virt_addr = a, size' = 0\<rparr>]\<rparr>, s1)))"

definition arm_smmu_alloc_pages_exact ::
  "env \<Rightarrow> arm_smmu_domain \<Rightarrow> nat \<Rightarrow> machine \<Rightarrow> fatal + u64 \<times> arm_smmu_domain \<times> machine" where
  "arm_smmu_alloc_pages_exact env d sz s =
     (if \<not> arm_smmu_is_master_side_secure d then
        (case call env (alloc_pages_exact sz) s of (r, s1) \<Rightarrow> Inr (word_of_int r, d, s1))
      else
        (case arm_smmu_secure_pool_remove d sz of (ret, d1) \<Rightarrow>
           if ret \<noteq> 0 then Inr (ret, d1, s)
           else
             (case call env (alloc_pages_exact sz) s of (r, s1) \<Rightarrow>
                if (word_of_int r :: u64) \<noteq> 0 then
                  (case arm_smmu_prepare_pgtable env (word_of_int r) d1 s1 of
                     Inl b \<Rightarrow> Inl b
                   | Inr (d2, s2) \<Rightarrow> Inr (word_of_int r, d2, s2))
                else Inr (0, d1, s1))))"

definition arm_smmu_free_pages_exact ::
  "env \<Rightarrow> arm_smmu_domain \<Rightarrow> u64 \<Rightarrow> nat \<Rightarrow> machine \<Rightarrow> fatal + arm_smmu_domain \<times> machine" where
  "arm_smmu_free_pages_exact env d virt sz s =
     (if \<not> arm_smmu_is_master_side_secure d then Inr (d, call_void (free_pages_exact virt sz) s)
      else
        (case arm_smmu_secure_pool_add env d virt sz s of (r, d1, s1) \<Rightarrow>
           if r \<noteq> 0 then arm_smmu_unprepare_pgtable env d1 virt sz s1 else Inr (d1, s1)))"

text \<open>The page-table library is a collaborator. What one of its operations does to the
  driver is the sequence of callbacks of \<open>arm_smmu_gather_ops\<close> it makes, each of which may
  depend on the addresses the allocator callback gave it before, and its result.\<close>

datatype 'r pgtable_run =
    Done 'r
  | Alloc_pages nat "u64 \<Rightarrow> 'r pgtable_run"
  | Free_pages u64 nat "'r pgtable_run"
  | Tlb_flush_all "'r pgtable_run"
  | Tlb_add_flush u64 nat bool "'r pgtable_run"
  | Tlb_sync "'r pgtable_run"

record io_pgtable_ops =
  map_op :: "u64 \<Rightarrow> u64 \<Rightarrow> nat \<Rightarrow> int \<Rightarrow> int pgtable_run"
  unmap_op :: "u64 \<Rightarrow> nat \<Rightarrow> nat pgtable_run"

primrec run_pgtable ::
  "env \<Rightarrow> 'r pgtable_run \<Rightarrow> arm_smmu_domain \<Rightarrow> machine \<Rightarrow>
     fatal + 'r \<times> arm_smmu_domain \<times> machine" where
  "run_pgtable env (Done r) = (\<lambda>d s. Inr (r, d, s))"
| "run_pgtable env (Alloc_pages sz k) = (\<lambda>d s.
     case arm_smmu_alloc_pages_exact env d sz s of
       Inl b \<Rightarrow> Inl b
     | Inr (p, d1, s1) \<Rightarrow> run_pgtable env (k p) d1 s1)"
| "run_pgtable env (Free_pages virt sz k) = (\<lambda>d s.
     case arm_smmu_free_pages_exact env d virt sz s of
       Inl b \<Rightarrow> Inl b
     | Inr (d1, s1) \<Rightarrow> run_pgtable env k d1 s1)"
| "run_pgtable env (Tlb_flush_all k) = (\<lambda>d s.
     run_pgtable env k d (arm_smmu_tlb_inv_context env d s))"
| "run_pgtable env (Tlb_add_flush iova sz leaf k) = (\<lambda>d s.
     case arm_smmu_tlb_inv_range_nosync iova sz leaf d s of
       Inl b \<Rightarrow> Inl b
     | Inr s1 \<Rightarrow> run_pgtable env k d s1)"
| "run_pgtable env (Tlb_sync k) = (\<lambda>d s.
     run_pgtable env k d (arm_smmu_tlb_sync env d s))"

text \<open>The first loop of \<open>arm_smmu_assign_table\<close>: one hypervisor call per entry, from
  \<open>VMID_HLOS\<close> to \<open>VMID_HLOS\<close> (read and write) and the domain's secure VMID (read only),
  stopping at the first failure.\<close>

fun assign_loop :: "env \<Rightarrow> arm_smmu_domain \<Rightarrow> arm_smmu_pte_info list \<Rightarrow> machine \<Rightarrow> int \<times> machine" where
  "assign_loop env d [] s = (0, s)"
| "assign_loop env d (pte_info # rest) s =
     (case call env (hyp_assign_phys (virt_addr pte_info) [VMID_HLOS]
                       [VMID_HLOS, sint (secure_vmid d)] [PERM_READ + PERM_WRITE, PERM_READ]) s of
        (ret, s1) \<Rightarrow>
          if ret \<noteq> 0 then (ret, log WARN_ON_hyp_assign s1) else assign_loop env d rest s1)"

definition arm_smmu_assign_table ::
  "env \<Rightarrow> arm_smmu_domain \<Rightarrow> machine \<Rightarrow> int \<times> arm_smmu_domain \<times> machine" where
  "arm_smmu_assign_table env d s =
     (if \<not> arm_smmu_is_master_side_secure d then (0, d, s)
      else
        (case assign_loop env d (pte_info_list d) s of
           (ret, s1) \<Rightarrow> (ret, d\<lparr>pte_info_list := []\<rparr>, s1)))"

fun unassign_loop :: "env \<Rightarrow> arm_smmu_domain \<Rightarrow> arm_smmu_pte_info list \<Rightarrow> machine \<Rightarrow> machine" where
  "unassign_loop env d [] s = s"
| "unassign_loop env d (pte_info # rest) s =
     (case call env (hyp_assign_phys (virt_addr pte_info) [sint (secure_vmid d), VMID_HLOS]
                       [VMID_HLOS] [PERM_READ + PERM_WRITE + PERM_EXEC]) s of
        (ret, s1) \<Rightarrow>
          if ret \<noteq> 0 then log WARN_ON_hyp_assign s1
          else unassign_loop env d rest
                 (call_void (free_pages_exact (virt_addr pte_info) (size' pte_info)) s1))"

definition arm_smmu_unassign_table ::
  "env \<Rightarrow> arm_smmu_domain \<Rightarrow> machine \<Rightarrow> arm_smmu_domain \<times> machine" where
  "arm_smmu_unassign_table env d s =
     (if \<not> arm_smmu_is_master_side_secure d then (d, s)
      else (d\<lparr>unassign_list := []\<rparr>, unassign_loop env d (unassign_list d) s))"

text \<open>\<open>arm_smmu_map\<close> and \<open>arm_smmu_unmap\<close>. The model is sequential, so the domain locks
  leave no trace. The error message of \<open>arm_smmu_unmap\<close> for an atomic slave-side-secure
  domain names the device through \<open>smmu_domain->smmu\<close>, which is \<open>NULL\<close> on a detached
  domain.\<close>

definition arm_smmu_map ::
  "env \<Rightarrow> io_pgtable_ops \<Rightarrow> arm_smmu_domain \<Rightarrow> u64 \<Rightarrow> u64 \<Rightarrow> nat \<Rightarrow> int \<Rightarrow> machine \<Rightarrow>
     fatal + int \<times> arm_smmu_domain \<times> machine" where
  "arm_smmu_map env ops d iova paddr sz prot s =
     (if \<not> pgtbl_ops d then Inr (- errno_code ENODEV, d, s)
      else
        (case run_pgtable env (map_op ops iova paddr sz prot) d s of
           Inl b \<Rightarrow> Inl b
         | Inr (ret, d1, s1) \<Rightarrow>
             if ret = 0 then Inr (arm_smmu_assign_table env d1 s1) else Inr (ret, d1, s1)))"

definition unmap_enable_clocks :: "env \<Rightarrow> arm_smmu_domain \<Rightarrow> machine \<Rightarrow> int \<times> machine" where
  "unmap_enable_clocks env d s =
     (if DOMAIN_ATTR_ATOMIC \<in> attributes d then arm_smmu_enable_clocks_atomic env s
      else if smmu d then arm_smmu_enable_clocks env s
      else (0, s))"

definition unmap_disable_clocks :: "env \<Rightarrow> arm_smmu_domain \<Rightarrow> machine \<Rightarrow> machine" where
  "unmap_disable_clocks env d s =
     (if DOMAIN_ATTR_ATOMIC \<in> attributes d then arm_smmu_disable_clocks_atomic s
      else if smmu d then arm_smmu_disable_clocks env s
      else s)"

definition arm_smmu_unmap ::
  "env \<Rightarrow> io_pgtable_ops \<Rightarrow> arm_smmu_domain \<Rightarrow> u64 \<Rightarrow> nat \<Rightarrow> machine \<Rightarrow>
     fatal + nat \<times> arm_smmu_domain \<times> machine" where
  "arm_smmu_unmap env ops d iova sz s =
     (if \<not> pgtbl_ops d then Inr (0, d, s)
      else if arm_smmu_is_slave_side_secure d \<and> DOMAIN_ATTR_ATOMIC \<in> attributes d then
        (if \<not> smmu d then Inl NULL_dereference else Inr (0, d, log err_slave_side_atomic s))
      else if DOMAIN_ATTR_ATOMIC \<in> attributes d \<and> \<not> smmu d then Inl BUG
      else
        (case unmap_enable_clocks env d s of (r, s1) \<Rightarrow>
           if r \<noteq> 0 then Inr (0, d, s1)
           else
             (case run_pgtable env (unmap_op ops iova sz) d s1 of
                Inl b \<Rightarrow> Inl b
              | Inr (ret, d2, s2) \<Rightarrow>
                  (case arm_smmu_assign_table env d2 s2 of (a, d3, s3) \<Rightarrow>
                     if a \<noteq> 0 then
                       (case arm_smmu_unassign_table env d3 s3 of (d4, s4) \<Rightarrow> Inr (0, d4, s4))
                     else
                       (case arm_smmu_unassign_table env d3 s3 of (d4, s4) \<Rightarrow>
                          Inr (ret, d4, unmap_disable_clocks env d s4))))))"

text \<open>The hypervisor calls among the collaborator calls, and the assign call of one pending
  entry.\<close>

fun is_hyp_assign :: "ext_call \<times> int \<Rightarrow> bool" where
  "is_hyp_assign (hyp_assign_phys a src dst perms, r) = True"
| "is_hyp_assign _ = False"

definition hyp_calls :: "machine \<Rightarrow> (ext_call \<times> int) list" where
  "hyp_calls s = filter is_hyp_assign (calls s)"

definition assign_call :: "arm_smmu_domain \<Rightarrow> arm_smmu_pte_info \<Rightarrow> ext_call \<times> int" where
  "assign_call d pte_info =
     (hyp_assign_phys (virt_addr pte_info) [VMID_HLOS] [VMID_HLOS, sint (secure_vmid d)]
        [PERM_READ + PERM_WRITE, PERM_READ], 0)"

definition unassign_call :: "arm_smmu_domain \<Rightarrow> arm_smmu_pte_info \<Rightarrow> ext_call \<times> int" where
  "unassign_call d pte_info =
     (hyp_assign_phys (virt_addr pte_info) [sint (secure_vmid d), VMID_HLOS] [VMID_HLOS]
        [PERM_READ + PERM_WRITE + PERM_EXEC], 0)"

text \<open>An environment whose hypervisor grants every ownership change.\<close>

definition hyp_ok :: "env \<Rightarrow> bool" where
  "hyp_ok env = (\<forall>s a src dst perms. ext_ret env s (hyp_assign_phys a src dst perms) = 0)"

text \<open>A master-side-secure domain with page-table operations, not attached to the device;
  a library whose map takes a page for a table and then finds the range mapped already
  (\<open>-EEXIST\<close>), and one whose map takes one page and succeeds; an environment whose allocators
  hand out page \<open>0x1000\<close>.\<close>

definition domain_secure :: arm_smmu_domain where
  "domain_secure = arm_smmu_domain_alloc\<lparr>pgtbl_ops := True, secure_vmid := 10\<rparr>"

definition ops_map_fails :: io_pgtable_ops where
  "ops_map_fails =
     \<lparr>map_op = (\<lambda>iova paddr sz prot.
         Alloc_pages 4096 (\<lambda>p. if p = 0 then Done (- 12) else Done (- 17))),
      unmap_op = (\<lambda>iova sz. Done 0)\<rparr>"

definition ops_map_one_table :: io_pgtable_ops where
  "ops_map_one_table =
     \<lparr>map_op = (\<lambda>iova paddr sz prot.
         Alloc_pages 4096 (\<lambda>p. if p = 0 then Done (- 12) else Done 0)),
      unmap_op = (\<lambda>iova sz. Free_pages 0x1000 4096 (Done sz))\<rparr>"

definition env_pages :: env where
  "env_pages = \<lparr>ext_ret = (\<lambda>s c. case c of alloc_pages_exact n \<Rightarrow> 0x1000
                                      | kzalloc_pte_info \<Rightarrow> 1 | kmalloc_pool_chunk \<Rightarrow> 1 | _ \<Rightarrow> 0),
     hw_readl = (\<lambda>s a. 0), hw_readq = (\<lambda>s a. 0), hw_poll_timeout = (\<lambda>s a. False)\<rparr>"

text \<open>A library whose unmap splits a block mapping, taking a page for the new table and
  giving back the page at \<open>0x2000\<close>, and an environment in which no pool chunk can be
  allocated, so that a page given back goes to the pending-unassign list.\<close>

definition ops_unmap_split :: io_pgtable_ops where
  "ops_unmap_split =
     \<lparr>map_op = (\<lambda>iova paddr sz prot. Done 0),
      unmap_op = (\<lambda>iova sz. Alloc_pages 4096 (\<lambda>p. Free_pages 0x2000 4096 (Done sz)))\<rparr>"

definition env_no_chunk :: env where
  "env_no_chunk = \<lparr>ext_ret = (\<lambda>s c. case c of alloc_pages_exact n \<Rightarrow> 0x1000
                                        | kzalloc_pte_info \<Rightarrow> 1 | _ \<Rightarrow> 0),
     hw_readl = (\<lambda>s a. 0), hw_readq = (\<lambda>s a. 0), hw_poll_timeout = (\<lambda>s a. False)\<rparr>"

text \<open>What a run of the library leaves of the domain: its identity, and the entries that
  were pending before the run.\<close>

definition domain_grows :: "arm_smmu_domain \<Rightarrow> arm_smmu_domain \<Rightarrow> bool" where
  "domain_grows d d' \<longleftrightarrow>
     secure_vmid d' = secure_vmid d \<and> slave_side_secure d' = slave_side_secure d \<and>
     pgtbl_ops d' = pgtbl_ops d \<and> smmu d' = smmu d \<and> attributes d' = attributes d \<and>
     cfg d' = cfg d \<and>
     (\<exists>new. pte_info_list d' = pte_info_list d @ new) \<and>
     (\<exists>new. unassign_list d' = unassign_list d @ new)"

section \<open>Domain contexts, attach and detach\<close>

definition ARM_SMMU_FEAT_STREAM_MATCH :: u32 where "ARM_SMMU_FEAT_STREAM_MATCH = 2"
definition ARM_SMMU_FEAT_TRANS_NESTED :: u32 where "ARM_SMMU_FEAT_TRANS_NESTED = 16"
definition ARM_SMMU_OPT_SKIP_INIT :: u32 where "ARM_SMMU_OPT_SKIP_INIT = 16"

definition ARM_SMMU_GR0_sGFSR :: nat where "ARM_SMMU_GR0_sGFSR = 0x48"
definition sCR0_CLIENTPD :: u32 where "sCR0_CLIENTPD = 0x1"
definition sCR0_GFRE :: u32 where "sCR0_GFRE = 0x2"
definition sCR0_GFIE :: u32 where "sCR0_GFIE = 0x4"
definition sCR0_GCFGFRE :: u32 where "sCR0_GCFGFRE = 0x10"
definition sCR0_GCFGFIE :: u32 where "sCR0_GCFGFIE = 0x20"
definition sCR0_USFCFG :: u32 where "sCR0_USFCFG = 0x400"
definition sCR0_VMIDPNE :: u32 where "sCR0_VMIDPNE = 0x800"
definition sCR0_PTM :: u32 where "sCR0_PTM = 0x1000"
definition sCR0_FB :: u32 where "sCR0_FB = 0x2000"
definition sCR0_BSU_SHIFT :: nat where "sCR0_BSU_SHIFT = 14"
definition sCR0_BSU_MASK :: u32 where "sCR0_BSU_MASK = 0x3"

definition SMR_VALID :: u32 where "SMR_VALID = 0x80000000"
definition SMR_MASK_SHIFT :: nat where "SMR_MASK_SHIFT = 16"
definition SMR_ID_SHIFT :: nat where "SMR_ID_SHIFT = 0"
definition S2CR_CBNDX_SHIFT :: nat where "S2CR_CBNDX_SHIFT = 0"
definition S2CR_TYPE_TRANS :: u32 where "S2CR_TYPE_TRANS = 0"
definition S2CR_TYPE_BYPASS :: u32 where "S2CR_TYPE_BYPASS = 0x10000"

definition CBA2R_RW64_64BIT :: u32 where "CBA2R_RW64_64BIT = 1"
definition CBAR_VMID_SHIFT :: nat where "CBAR_VMID_SHIFT = 0"
definition CBAR_S1_BPSHCFG_SHIFT :: nat where "CBAR_S1_BPSHCFG_SHIFT = 8"
definition CBAR_S1_BPSHCFG_NSH :: u32 where "CBAR_S1_BPSHCFG_NSH = 3"
definition CBAR_S1_MEMATTR_SHIFT :: nat where "CBAR_S1_MEMATTR_SHIFT = 12"
definition CBAR_S1_MEMATTR_WB :: u32 where "CBAR_S1_MEMATTR_WB = 0xf"
definition CBAR_IRPTNDX_SHIFT :: nat where "CBAR_IRPTNDX_SHIFT = 24"
definition TTBRn_ASID_SHIFT :: nat where "TTBRn_ASID_SHIFT = 48"

definition ACTLR_QCOM_ISH_SHIFT :: nat where "ACTLR_QCOM_ISH_SHIFT = 29"
definition ACTLR_QCOM_OSH_SHIFT :: nat where "ACTLR_QCOM_OSH_SHIFT = 28"
definition ACTLR_QCOM_NSH_SHIFT :: nat where "ACTLR_QCOM_NSH_SHIFT = 30"

definition SCTLR_S1_ASIDPNE :: u32 where "SCTLR_S1_ASIDPNE = 0x1000"
definition SCTLR_HUPCF :: u32 where "SCTLR_HUPCF = 0x100"
definition SCTLR_CFIE :: u32 where "SCTLR_CFIE = 0x40"
definition SCTLR_CFRE :: u32 where "SCTLR_CFRE = 0x20"
definition SCTLR_AFE :: u32 where "SCTLR_AFE = 0x4"
definition SCTLR_TRE :: u32 where "SCTLR_TRE = 0x2"
definition SCTLR_M :: u32 where "SCTLR_M = 0x1"
definition SCTLR_EAE_SBOP :: u32 where "SCTLR_EAE_SBOP = (SCTLR_AFE OR SCTLR_TRE)"

definition MAX_ASID :: nat where "MAX_ASID = 0xff"


text \<open>\<open>arm_smmu_init_context_bank\<close> on a 64-bit little-endian kernel.\<close>

definition arm_smmu_init_context_bank :: "arm_smmu_domain \<Rightarrow> io_pgtable_cfg \<Rightarrow> machine \<Rightarrow> machine" where
  "arm_smmu_init_context_bank d pc s =
     (let stage1 = (cbar (cfg d) \<noteq> CBAR_TYPE_S2_TRANS);
          n = unat (cbndx (cfg d));
          s1 = (if version s \<noteq> ARM_SMMU_V1 then
                  writel_relaxed CBA2R_RW64_64BIT (GR1, ARM_SMMU_GR1_CBA2R n)
                    (if \<not> arm_smmu_has_secure_vmid d \<and> arm_smmu_is_static_cb s
                     then call_void (msm_tz_set_cb_format n) s else s)
                else s);
          reg = cbar (cfg d) OR
                (if version s = ARM_SMMU_V1
                 then push_bit CBAR_IRPTNDX_SHIFT (ucast (arm_smmu_cfg.irptndx (cfg d))) else 0) OR
                (if stage1
                 then push_bit CBAR_S1_BPSHCFG_SHIFT CBAR_S1_BPSHCFG_NSH OR
                      push_bit CBAR_S1_MEMATTR_SHIFT CBAR_S1_MEMATTR_WB
                 else 0) OR
                push_bit CBAR_VMID_SHIFT (ucast (vmid (cfg d)));
          s2 = writel_relaxed reg (GR1, ARM_SMMU_GR1_CBAR n) s1;
          s3 = (if stage1 then
                  writeq_relaxed (ttbr1 pc OR push_bit TTBRn_ASID_SHIFT (ucast (asid (cfg d))))
                    (CB n, ARM_SMMU_CB_TTBR1)
                    (writeq_relaxed (ttbr0 pc OR push_bit TTBRn_ASID_SHIFT (ucast (asid (cfg d))))
                       (CB n, ARM_SMMU_CB_TTBR0) s2)
                else writeq_relaxed (vttbr pc) (CB n, ARM_SMMU_CB_TTBR0) s2);
          s4 = (if stage1 then
                  (let s' = writel_relaxed (ucast (tcr pc)) (CB n, ARM_SMMU_CB_TTBCR) s3
                   in if version s \<noteq> ARM_SMMU_V1
                      then writel_relaxed (ucast (drop_bit 32 (tcr pc))) (CB n, ARM_SMMU_CB_TTBCR2) s'
                      else s')
                else writel_relaxed (ucast (vtcr pc)) (CB n, ARM_SMMU_CB_TTBCR) s3);
          s5 = (if stage1 then
                  writel_relaxed (ucast (mair1 pc)) (CB n, ARM_SMMU_CB_S1_MAIR1)
                    (writel_relaxed (ucast (mair0 pc)) (CB n, ARM_SMMU_CB_S1_MAIR0) s4)
                else s4);
          s6 = (if model s = SMMU_MODEL_QCOM_V2 then
                  writel_relaxed (push_bit ACTLR_QCOM_ISH_SHIFT 1 OR push_bit ACTLR_QCOM_OSH_SHIFT 1 OR
                                  push_bit ACTLR_QCOM_NSH_SHIFT 1) (CB n, ARM_SMMU_CB_ACTLR) s5
                else s5);
          r0 = SCTLR_CFCFG OR SCTLR_CFIE OR SCTLR_CFRE OR SCTLR_EAE_SBOP;
          r1 = (if DOMAIN_ATTR_CB_STALL_DISABLE \<in> attributes d
                then (r0 AND NOT SCTLR_CFCFG) OR SCTLR_HUPCF else r0);
          r2 = (if (DOMAIN_ATTR_S1_BYPASS \<notin> attributes d \<and> DOMAIN_ATTR_EARLY_MAP \<notin> attributes d) \<or>
                   \<not> stage1
                then r1 OR SCTLR_M else r1);
          r3 = (if stage1 then r2 OR SCTLR_S1_ASIDPNE else r2)
      in writel_relaxed r3 (CB n, ARM_SMMU_CB_SCTLR) s6)"









section \<open>Domains of one device\<close>

text \<open>The driver states that differ from a device state only in the reference counters, the
  interrupt counter and the three history channels: what a context set-up or tear-down may
  change besides the bitmap of context banks.\<close>

definition device_kept :: "machine \<Rightarrow> machine \<Rightarrow> bool" where
  "device_kept s s' \<longleftrightarrow>
     (\<exists>pc cc ic mm ca lo. s' = s\<lparr>power_count := pc, clock_refs_count := cc,
         arm_smmu_device.irptndx := ic, mmio := mm, calls := ca, logs := lo\<rparr>)"





text \<open>A bank is static when the table read from the firmware has a translate entry for it
  (\<open>arm_smmu_get_static_entry_from_context\<close>). The bindings of a system are exclusive when
  every domain bound to a bank that is not static holds the bit of the bank in the bitmap
  and no other domain is bound to that bank.\<close>

definition static_bank :: "machine \<Rightarrow> u8 \<Rightarrow> bool" where
  "static_bank s c = (arm_smmu_get_static_entry_from_context s (uint c) \<noteq> None)"







section \<open>Properties of the allocator and the static table\<close>

lemma static_entry_scan_hit:
  "s \<in> set ss \<Longrightarrow> arm_smmu_get_static_entry_from_sid dev (uint s) = Some e \<Longrightarrow>
   type e = TYPE_TRANS \<Longrightarrow>
   \<exists>s' e'. s' \<in> set ss \<and> arm_smmu_get_static_entry_from_sid dev (uint s') = Some e' \<and>
     type e' = TYPE_TRANS \<and> static_entry_scan dev ss acc = Some e'"
proof (induction ss arbitrary: acc)
  case Nil
  then show ?case by simp
next
  case (Cons a ss)
  show ?case
  proof (cases "arm_smmu_get_static_entry_from_sid dev (uint a)")
    case None
    with Cons.prems have "s \<in> set ss" by auto
    from Cons.IH [OF this Cons.prems(2,3), of None] None show ?thesis by auto
  next
    case (Some ea)
    show ?thesis
    proof (cases "type ea = TYPE_TRANS")
      case True
      with Some show ?thesis by auto
    next
      case False
      with Some Cons.prems have "s \<in> set ss" by auto
      from Cons.IH [OF this Cons.prems(2,3), of "Some ea"] Some False show ?thesis by auto
    qed
  qed
qed

lemma static_entry_in_list:
  "arm_smmu_get_static_entry_from_sid dev s = Some e \<Longrightarrow> e \<in> set (static_cbndx_list dev)"
  by (auto simp: arm_smmu_get_static_entry_from_sid_def find_Some_iff)

lemma free_context_idx_static:
  assumes "entry \<in> set (static_cbndx_list dev)" "type entry = TYPE_TRANS"
  shows "arm_smmu_free_context_idx dev (unat (static_cbndx_entry.cbndx entry)) = dev"
proof -
  have "find (\<lambda>e. type e = TYPE_TRANS \<and> uint (static_cbndx_entry.cbndx e) = int (unat (static_cbndx_entry.cbndx entry))) (static_cbndx_list dev) \<noteq> None"
    using assms by (auto simp: find_None_iff)
  then show ?thesis
    by (auto simp: arm_smmu_free_context_idx_def arm_smmu_get_static_entry_from_context_def)
qed

lemma free_context_idx_keeps_static:
  assumes "entry \<in> set (static_cbndx_list dev)" "type entry = TYPE_TRANS"
    "bit (context_map dev) (unat (static_cbndx_entry.cbndx entry))"
  shows "bit (context_map (arm_smmu_free_context_idx dev idx)) (unat (static_cbndx_entry.cbndx entry))"
proof (cases "arm_smmu_get_static_entry_from_context dev (int idx)")
  case None
  then have "idx \<noteq> unat (static_cbndx_entry.cbndx entry)"
    using assms(1,2) by (auto simp: arm_smmu_get_static_entry_from_context_def find_None_iff)
  with None assms(3) show ?thesis
    by (simp add: arm_smmu_free_context_idx_def arm_smmu_free_bitmap_def bit_unset_bit_iff)
next
  case (Some a)
  with assms(3) show ?thesis by (simp add: arm_smmu_free_context_idx_def)
qed

lemma alloc_bitmap_result:
  assumes "arm_smmu_alloc_bitmap m st en = (m', Inr i)"
  shows "\<not> bit m i \<and> m' = set_bit i m \<and> i < en \<and> (st \<le> en \<longrightarrow> st \<le> i)"
  using assms find_next_zero_bit_clear [of m en st] find_next_zero_bit_le [of m en st]
    find_next_zero_bit_ge [of st en m]
  by (auto simp: arm_smmu_alloc_bitmap_eq Let_def split: if_splits)

lemma alloc_bitmap_keeps_bits:
  assumes "arm_smmu_alloc_bitmap m st en = (m', r)" "bit m j"
  shows "bit m' j"
  using assms by (auto simp: arm_smmu_alloc_bitmap_eq Let_def bit_set_bit_iff split: if_splits)


lemma static_entry_found:
  assumes "distinct (map sid (static_cbndx_list dev))" "e \<in> set (static_cbndx_list dev)"
  shows "arm_smmu_get_static_entry_from_sid dev (uint (sid e)) = Some e"
proof -
  from assms(2) obtain i where i: "i < length (static_cbndx_list dev)"
    "static_cbndx_list dev ! i = e"
    by (auto simp: in_set_conv_nth)
  have "\<forall>j<i. \<not> uint (sid (static_cbndx_list dev ! j)) = uint (sid e)"
  proof (intro allI impI)
    fix j assume j: "j < i"
    from nth_eq_iff_index_eq [OF assms(1), of j i] i j
    have "sid (static_cbndx_list dev ! j) \<noteq> sid (static_cbndx_list dev ! i)"
      by simp
    with i j show "\<not> uint (sid (static_cbndx_list dev ! j)) = uint (sid e)"
      by (simp flip: word_uint_eq_iff)
  qed
  with i show ?thesis
    unfolding arm_smmu_get_static_entry_from_sid_def find_Some_iff by blast
qed

text \<open>Claim C2, as amended. The driver finds a stream ID's static entry by walking the
  table from its head, so what counts is the first entry with that stream ID. If, for some
  candidate stream ID, that first entry is of type translate,
  \<open>arm_smmu_alloc_context_idx\<close> returns the bank index recorded in the first entry of such
  a stream ID and leaves the device (so the bitmap) unchanged, whatever the range and
  however full the bitmap is. When the table holds at most one entry per stream ID, every
  translate entry of the table whose stream ID is a candidate is such a first entry.
  Freeing the bank index of any translate entry of the table leaves the device unchanged;
  hence a static bank whose bit is set (as the probe sets it) keeps its bit through
  every free and every bitmap allocation, and the bitmap allocator never hands it
  out.\<close>

theorem static_translate_entry_priority:
  "(\<forall>s e. s \<in> set streamids \<and> arm_smmu_get_static_entry_from_sid dev (uint s) = Some e \<and>
       type e = TYPE_TRANS \<longrightarrow>
     (\<exists>s' e'. s' \<in> set streamids \<and>
        arm_smmu_get_static_entry_from_sid dev (uint s') = Some e' \<and>
        type e' = TYPE_TRANS \<and>
        arm_smmu_alloc_context_idx dev start end' streamids =
          (dev, Inr (unat (static_cbndx_entry.cbndx e'))))) \<and>
   (distinct (map sid (static_cbndx_list dev)) \<longrightarrow>
     (\<forall>e\<in>set (static_cbndx_list dev). type e = TYPE_TRANS \<and> sid e \<in> set streamids \<longrightarrow>
        (\<exists>e'\<in>set (static_cbndx_list dev). type e' = TYPE_TRANS \<and> sid e' \<in> set streamids \<and>
           arm_smmu_alloc_context_idx dev start end' streamids =
             (dev, Inr (unat (static_cbndx_entry.cbndx e')))))) \<and>
   (\<forall>entry\<in>set (static_cbndx_list dev). type entry = TYPE_TRANS \<longrightarrow>
      arm_smmu_free_context_idx dev (unat (static_cbndx_entry.cbndx entry)) = dev \<and>
      (bit (context_map dev) (unat (static_cbndx_entry.cbndx entry)) \<longrightarrow>
         (\<forall>idx. bit (context_map (arm_smmu_free_context_idx dev idx))
                  (unat (static_cbndx_entry.cbndx entry))) \<and>
         (\<forall>st en m i. arm_smmu_alloc_bitmap (context_map dev) st en = (m, Inr i) \<longrightarrow>
            i \<noteq> unat (static_cbndx_entry.cbndx entry) \<and>
            bit m (unat (static_cbndx_entry.cbndx entry)))))"
proof -
  have first: "\<exists>s' e'. s' \<in> set streamids \<and>
        arm_smmu_get_static_entry_from_sid dev (uint s') = Some e' \<and>
        type e' = TYPE_TRANS \<and>
        arm_smmu_alloc_context_idx dev start end' streamids =
          (dev, Inr (unat (static_cbndx_entry.cbndx e')))"
    if h: "s \<in> set streamids" "arm_smmu_get_static_entry_from_sid dev (uint s) = Some e"
      "type e = TYPE_TRANS" for s e
  proof -
    from static_entry_scan_hit [OF h, of None]
    obtain s' e' where k: "s' \<in> set streamids"
      "arm_smmu_get_static_entry_from_sid dev (uint s') = Some e'"
      "type e' = TYPE_TRANS" "static_entry_scan dev streamids None = Some e'"
      by blast
    then have "arm_smmu_alloc_context_idx dev start end' streamids =
        (dev, Inr (unat (static_cbndx_entry.cbndx e')))"
      by (simp add: arm_smmu_alloc_context_idx_def)
    with k show ?thesis by blast
  qed
  have listed: "\<exists>e'\<in>set (static_cbndx_list dev). type e' = TYPE_TRANS \<and> sid e' \<in> set streamids \<and>
           arm_smmu_alloc_context_idx dev start end' streamids =
             (dev, Inr (unat (static_cbndx_entry.cbndx e')))"
    if d: "distinct (map sid (static_cbndx_list dev))" and e: "e \<in> set (static_cbndx_list dev)"
      "type e = TYPE_TRANS" "sid e \<in> set streamids" for e
  proof -
    from first [OF e(3) static_entry_found [OF d e(1)] e(2)]
    obtain s' e' where k: "s' \<in> set streamids"
      "arm_smmu_get_static_entry_from_sid dev (uint s') = Some e'" "type e' = TYPE_TRANS"
      "arm_smmu_alloc_context_idx dev start end' streamids =
          (dev, Inr (unat (static_cbndx_entry.cbndx e')))"
      by blast
    from k(2) have "e' \<in> set (static_cbndx_list dev)" by (rule static_entry_in_list)
    moreover from k(2) have "sid e' = s'"
      by (auto simp: arm_smmu_get_static_entry_from_sid_def find_Some_iff
          simp flip: word_uint_eq_iff)
    ultimately show ?thesis using k by blast
  qed
  have kept: "arm_smmu_free_context_idx dev (unat (static_cbndx_entry.cbndx entry)) = dev \<and>
      (bit (context_map dev) (unat (static_cbndx_entry.cbndx entry)) \<longrightarrow>
         (\<forall>idx. bit (context_map (arm_smmu_free_context_idx dev idx))
                  (unat (static_cbndx_entry.cbndx entry))) \<and>
         (\<forall>st en m i. arm_smmu_alloc_bitmap (context_map dev) st en = (m, Inr i) \<longrightarrow>
            i \<noteq> unat (static_cbndx_entry.cbndx entry) \<and>
            bit m (unat (static_cbndx_entry.cbndx entry))))"
    if e: "entry \<in> set (static_cbndx_list dev)" "type entry = TYPE_TRANS" for entry
  proof (intro conjI impI allI)
    show "arm_smmu_free_context_idx dev (unat (static_cbndx_entry.cbndx entry)) = dev"
      by (rule free_context_idx_static [OF e])
  next
    fix idx
    assume "bit (context_map dev) (unat (static_cbndx_entry.cbndx entry))"
    then show "bit (context_map (arm_smmu_free_context_idx dev idx))
        (unat (static_cbndx_entry.cbndx entry))"
      by (rule free_context_idx_keeps_static [OF e])
  next
    fix st en m i
    assume b: "bit (context_map dev) (unat (static_cbndx_entry.cbndx entry))"
      and a: "arm_smmu_alloc_bitmap (context_map dev) st en = (m, Inr i)"
    from alloc_bitmap_result [OF a] b show "i \<noteq> unat (static_cbndx_entry.cbndx entry)" by auto
    from alloc_bitmap_keeps_bits [OF a b] show "bit m (unat (static_cbndx_entry.cbndx entry))" .
  qed
  from first listed kept show ?thesis by blast
qed

text \<open>On a table with a bypass entry for stream ID 9 and a translate entry for stream ID
  5, an allocation for the stream IDs 9 and 5 returns the bank of the translate entry.\<close>

theorem static_translate_entry_priority_witness:
  "distinct (map sid (static_cbndx_list smmu_static_pair_example)) \<and>
   arm_smmu_alloc_context_idx smmu_static_pair_example 0 0 [9, 5] =
     (smmu_static_pair_example, Inr 3) \<and>
   arm_smmu_free_context_idx smmu_static_pair_example 3 = smmu_static_pair_example \<and>
   bit (context_map (arm_smmu_free_context_idx smmu_static_pair_example 2)) 3"
proof -
  let ?b = "\<lparr>static_cbndx_entry.cbndx = 0, smr_idx = 1, sid = 9, type = TYPE_BYPASS\<rparr>"
  let ?e = "\<lparr>static_cbndx_entry.cbndx = 3, smr_idx = 0, sid = 5, type = TYPE_TRANS\<rparr>"
  have l: "static_cbndx_list smmu_static_pair_example = [?b, ?e]"
    by (simp add: smmu_static_pair_example_def)
  have 1: "distinct (map sid (static_cbndx_list smmu_static_pair_example))" by (simp add: l)
  have 2: "?e \<in> set (static_cbndx_list smmu_static_pair_example)" by (simp add: l)
  have 3: "type ?e = TYPE_TRANS \<and> sid ?e \<in> set [9, 5]" by simp
  have 5: "bit (context_map smmu_static_pair_example) (unat (static_cbndx_entry.cbndx ?e))"
    by (simp add: smmu_static_pair_example_def smmu_static_example_def bit_numeral_word_iff)
  note t = static_translate_entry_priority [of "[9, 5]" smmu_static_pair_example 0 0]
  from t 1 2 3 have "\<exists>e'\<in>set (static_cbndx_list smmu_static_pair_example).
      type e' = TYPE_TRANS \<and>
      arm_smmu_alloc_context_idx smmu_static_pair_example 0 0 [9, 5] =
        (smmu_static_pair_example, Inr (unat (static_cbndx_entry.cbndx e')))"
    by blast
  then have a: "arm_smmu_alloc_context_idx smmu_static_pair_example 0 0 [9, 5] =
      (smmu_static_pair_example, Inr 3)"
    by (simp add: l TYPE_TRANS_def TYPE_BYPASS_def)
  from t 2 3 5 have "arm_smmu_free_context_idx smmu_static_pair_example
        (unat (static_cbndx_entry.cbndx ?e)) = smmu_static_pair_example \<and>
      bit (context_map (arm_smmu_free_context_idx smmu_static_pair_example 2))
        (unat (static_cbndx_entry.cbndx ?e))"
    by blast
  with 1 a show ?thesis by simp
qed

text \<open>Stream ID 5 has a translate entry for bank 3 in the table, behind a fault entry for
  the same stream ID: the lookup stops at the fault entry and the allocation claims
  bitmap slot 0.\<close>

theorem static_translate_entry_priority_counterexample:
  "\<lparr>static_cbndx_entry.cbndx = 3, smr_idx = 0, sid = 5, type = TYPE_TRANS\<rparr>
     \<in> set (static_cbndx_list smmu_shadowed_example) \<and>
   arm_smmu_alloc_context_idx smmu_shadowed_example 0 4 [5] =
     (smmu_shadowed_example\<lparr>context_map := 9\<rparr>, Inr 0)"
  by (simp add: smmu_shadowed_example_def smmu_static_example_def
      arm_smmu_alloc_context_idx_def arm_smmu_get_static_entry_from_sid_def
      arm_smmu_alloc_bitmap_eq find_next_zero_bit.simps TYPE_TRANS_def TYPE_FAULT_def)

section \<open>Properties of the power and clock gate\<close>

lemma call_ok: "platform_ok env \<Longrightarrow> is_power_call c \<Longrightarrow>
  call env c s = (0, s\<lparr>calls := calls s @ [(c, 0)]\<rparr>)"
  by (simp add: call_def platform_ok_def)

lemma unprepare_down_calls:
  "unprepare_down i s = s\<lparr>calls := calls s @ map (\<lambda>j. (clk_unprepare j, 0)) (rev [0..<i])\<rparr>"
  by (induction i arbitrary: s) (simp_all add: call_void_def)

lemma prepare_loop_ok:
  "platform_ok env \<Longrightarrow> i \<le> n \<Longrightarrow>
   prepare_loop env n i s = (0, s\<lparr>calls := calls s @ map (\<lambda>j. (clk_prepare j, 0)) [i..<n]\<rparr>)"
proof (induction env n i s rule: prepare_loop.induct)
  case (1 env n i s)
  show ?case
  proof (cases "i < n")
    case True
    have c: "call env (clk_prepare i) s = (0, s\<lparr>calls := calls s @ [(clk_prepare i, 0)]\<rparr>)"
      using "1.prems"(1) by (simp add: call_ok)
    have "prepare_loop env n (Suc i) (s\<lparr>calls := calls s @ [(clk_prepare i, 0)]\<rparr>) =
        (0, s\<lparr>calls := calls s @ [(clk_prepare i, 0)] @ map (\<lambda>j. (clk_prepare j, 0)) [Suc i..<n]\<rparr>)"
      using "1.IH" [OF True c [symmetric]] "1.prems"(1) True by simp
    then show ?thesis
      using True c by (subst prepare_loop.simps) (simp add: upt_conv_Cons)
  next
    case False
    with "1.prems" show ?thesis by (subst prepare_loop.simps) simp
  qed
qed

lemma bus_request_ok:
  "platform_ok env \<Longrightarrow> arm_smmu_request_bus env s =
     (0, s\<lparr>calls := calls s @
        (if bus_client s \<noteq> 0 then [(msm_bus_scale_client_update_request (bus_client s) 1, 0)] else [])\<rparr>)"
  by (simp add: arm_smmu_request_bus_def call_ok)

lemma bus_unrequest_ok:
  "platform_ok env \<Longrightarrow> arm_smmu_unrequest_bus env s =
     (0, s\<lparr>calls := calls s @
        (if bus_client s \<noteq> 0 then [(msm_bus_scale_client_update_request (bus_client s) 0, 0)] else [])\<rparr>)"
  by (simp add: arm_smmu_unrequest_bus_def call_ok)

lemma enable_regulators_first:
  assumes "platform_ok env" "power_count s = 0"
  shows "arm_smmu_enable_regulators env s =
     (0, s\<lparr>calls := calls s @ bring_up_calls s, power_count := 1\<rparr>)"
  using assms
  by (simp add: arm_smmu_enable_regulators_def call_ok bus_request_ok
      arm_smmu_prepare_clocks_def prepare_loop_ok bring_up_calls_def)

lemma disable_regulators_last:
  assumes "platform_ok env" "power_count s = 1"
  shows "arm_smmu_disable_regulators env s =
     (0, s\<lparr>calls := calls s @ map (mirror_call (regulator_defer s)) (rev (bring_up_calls s)),
            power_count := 0\<rparr>)"
  using assms
  by (simp add: arm_smmu_disable_regulators_def call_ok bus_unrequest_ok
      arm_smmu_unprepare_clocks_def unprepare_down_calls bring_up_calls_def Let_def
      rev_map comp_def)

lemma platform_prepare_all:
  "foldl platform_step p (map (\<lambda>j. (clk_prepare j, 0)) [0..<n]) =
     p\<lparr>prepared := (\<lambda>i. if i < n then prepared p i + 1 else prepared p i)\<rparr>"
proof (induction n)
  case 0
  show ?case by simp
next
  case (Suc n)
  then show ?case by (auto simp: fun_eq_iff)
qed

lemma platform_unprepare_all:
  "foldl platform_step p (map (\<lambda>j. (clk_unprepare j, 0)) (rev [0..<n])) =
     p\<lparr>prepared := (\<lambda>i. if i < n then prepared p i - 1 else prepared p i)\<rparr>"
proof (induction n arbitrary: p)
  case 0
  show ?case by simp
next
  case (Suc n)
  show ?case by (cases p) (auto simp: Suc.IH fun_eq_iff less_Suc_eq)
qed

lemma platform_round_trip:
  assumes "bus_client s \<noteq> 0 \<longrightarrow> bus_vote p = 0"
  shows "platform_after p
           (bring_up_calls s @ map (mirror_call (regulator_defer s)) (rev (bring_up_calls s))) = p"
  using assms
  by (cases p)
     (auto simp: platform_after_def bring_up_calls_def rev_map comp_def
      platform_prepare_all platform_unprepare_all fun_eq_iff)

lemma repeat_op_snoc:
  "repeat_op (Suc n) f s =
     (case repeat_op n f s of (rs, s1) \<Rightarrow> (case f s1 of (r, s2) \<Rightarrow> (rs @ [r], s2)))"
proof (induction n arbitrary: s)
  case 0
  show ?case by (simp split: prod.splits)
next
  case (Suc n)
  have "repeat_op (Suc (Suc n)) f s =
      (case f s of (r, s1) \<Rightarrow>
         (case repeat_op (Suc n) f s1 of (rs, s2) \<Rightarrow> (r # rs, s2)))"
    by simp
  also have "\<dots> =
      (case f s of (r, s1) \<Rightarrow>
         (case (case repeat_op n f s1 of (rs, s1') \<Rightarrow>
                  (case f s1' of (r', s2) \<Rightarrow> (rs @ [r'], s2))) of
            (rs, s2) \<Rightarrow> (r # rs, s2)))"
    by (simp only: Suc.IH)
  also have "\<dots> =
      (case repeat_op (Suc n) f s of (rs, s1) \<Rightarrow>
         (case f s1 of (r, s2) \<Rightarrow> (rs @ [r], s2)))"
    by (simp split: prod.splits)
  finally show ?case .
qed

lemma acquire_run:
  assumes "platform_ok env" "power_count s \<noteq> 0" "unat (power_count s) + N < 2 ^ 32"
  shows "repeat_op N (arm_smmu_enable_regulators env) s =
           (replicate N 0, s\<lparr>power_count := power_count s + of_nat N\<rparr>)"
  using assms(2,3)
proof (induction N arbitrary: s)
  case 0
  show ?case by simp
next
  case (Suc N)
  let ?s1 = "s\<lparr>power_count := power_count s + 1\<rparr>"
  have e: "arm_smmu_enable_regulators env s = (0, ?s1)"
    using Suc.prems(1) by (simp add: arm_smmu_enable_regulators_def)
  have u: "unat (power_count s + 1) = unat (power_count s) + 1"
    using Suc.prems(2) by (simp add: unat_word_ariths)
  have nz: "power_count ?s1 \<noteq> 0"
    using u by auto
  have "repeat_op N (arm_smmu_enable_regulators env) ?s1 =
           (replicate N 0, ?s1\<lparr>power_count := power_count ?s1 + of_nat N\<rparr>)"
    using Suc.IH [OF nz] u Suc.prems(2) by simp
  with e show ?case by (simp add: add.assoc add.commute)
qed

lemma release_run:
  assumes "N < unat (power_count s)"
  shows "repeat_op N (arm_smmu_disable_regulators env) s =
           (replicate N 0, s\<lparr>power_count := power_count s - of_nat N\<rparr>)"
  using assms
proof (induction N arbitrary: s)
  case 0
  show ?case by simp
next
  case (Suc N)
  let ?s1 = "s\<lparr>power_count := power_count s - 1\<rparr>"
  have gt: "1 < power_count s"
    using Suc.prems by (simp add: word_less_nat_alt)
  then have e: "arm_smmu_disable_regulators env s = (0, ?s1)"
    by (auto simp: arm_smmu_disable_regulators_def)
  have "power_count s \<noteq> 0" using gt by auto
  then have u: "unat (power_count s - 1) = unat (power_count s) - 1"
    by (rule unat_minus_one)
  have "repeat_op N (arm_smmu_disable_regulators env) ?s1 =
           (replicate N 0, ?s1\<lparr>power_count := power_count ?s1 - of_nat N\<rparr>)"
    using Suc.IH [of ?s1] u Suc.prems by simp
  with e show ?case by (simp add: diff_diff_eq add.commute)
qed

lemma bring_up_calls_cong [simp]:
  "bring_up_calls (s\<lparr>power_count := c\<rparr>) = bring_up_calls s"
  "bring_up_calls (s\<lparr>calls := cs\<rparr>) = bring_up_calls s"
  by (simp_all add: bring_up_calls_def)

lemma unat_of_nat_u32: "n < 2 ^ 32 \<Longrightarrow> unat (of_nat n :: u32) = n"
  by (simp add: unat_of_nat)

lemma round_trip_nonzero:
  assumes ok: "platform_ok env" and nz: "power_count s \<noteq> 0"
    and b: "unat (power_count s) + N < 2 ^ 32"
  shows "repeat_op N (arm_smmu_enable_regulators env) s =
           (replicate N 0, s\<lparr>power_count := power_count s + of_nat N\<rparr>) \<and>
         repeat_op N (arm_smmu_disable_regulators env)
           (s\<lparr>power_count := power_count s + of_nat N\<rparr>) = (replicate N 0, s)"
proof -
  have n: "unat (of_nat N :: u32) = N" using b by (simp add: unat_of_nat_u32)
  have u: "unat (power_count s + of_nat N) = unat (power_count s) + N"
    using b n by (simp add: unat_word_ariths)
  have "0 < unat (power_count s)" using nz by (simp add: unat_gt_0)
  then have lt: "N < unat (power_count (s\<lparr>power_count := power_count s + of_nat N\<rparr>))"
    using u by simp
  show ?thesis
    using acquire_run [OF ok nz b] release_run [OF lt, of env] by simp
qed

lemma round_trip_zero:
  assumes ok: "platform_ok env" and z: "power_count s = 0" and b: "Suc k < 2 ^ 32"
  shows "\<exists>s1. repeat_op (Suc k) (arm_smmu_enable_regulators env) s = (replicate (Suc k) 0, s1) \<and>
         repeat_op (Suc k) (arm_smmu_disable_regulators env) s1 =
           (replicate (Suc k) 0,
            s\<lparr>calls := calls s @ bring_up_calls s @
               map (mirror_call (regulator_defer s)) (rev (bring_up_calls s))\<rparr>)"
proof -
  let ?sa = "s\<lparr>calls := calls s @ bring_up_calls s, power_count := 1\<rparr>"
  let ?s1 = "?sa\<lparr>power_count := 1 + of_nat k\<rparr>"
  have e: "arm_smmu_enable_regulators env s = (0, ?sa)"
    by (rule enable_regulators_first [OF ok z])
  have r: "repeat_op k (arm_smmu_enable_regulators env) ?sa = (replicate k 0, ?s1)"
    using acquire_run [OF ok, of ?sa k] b by simp
  have a: "repeat_op (Suc k) (arm_smmu_enable_regulators env) s = (replicate (Suc k) 0, ?s1)"
    using e r by simp
  have n: "unat (of_nat k :: u32) = k" using b by (simp add: unat_of_nat_u32)
  have u: "unat (1 + of_nat k :: u32) = 1 + k"
    using b n by (simp add: unat_word_ariths)
  have d: "repeat_op k (arm_smmu_disable_regulators env) ?s1 =
      (replicate k 0, ?s1\<lparr>power_count := power_count ?s1 - of_nat k\<rparr>)"
    by (rule release_run) (simp add: u)
  have l: "arm_smmu_disable_regulators env (?sa\<lparr>power_count := 1\<rparr>) =
      (0, s\<lparr>calls := calls s @ bring_up_calls s @
               map (mirror_call (regulator_defer s)) (rev (bring_up_calls s))\<rparr>)"
    using disable_regulators_last [OF ok, of "?sa\<lparr>power_count := 1\<rparr>"] z by simp
  have "repeat_op (Suc k) (arm_smmu_disable_regulators env) ?s1 =
      (replicate (Suc k) 0,
            s\<lparr>calls := calls s @ bring_up_calls s @
               map (mirror_call (regulator_defer s)) (rev (bring_up_calls s))\<rparr>)"
    using d l by (simp add: repeat_op_snoc replicate_append_same del: repeat_op.simps)
  with a show ?thesis by blast
qed

lemma platform_ok_env_ok: "platform_ok env_ok"
  by (simp add: platform_ok_def env_ok_def)

lemmas power_example_defs = arm_smmu_enable_regulators_def arm_smmu_disable_regulators_def
  arm_smmu_request_bus_def arm_smmu_unrequest_bus_def arm_smmu_prepare_clocks_def
  arm_smmu_unprepare_clocks_def prepare_loop.simps call_def call_void_def log_def Let_def
  machine_off_def platform_after_def platform_off_def

text \<open>Claim C6, as amended. With \<open>acquire\<close> = \<open>arm_smmu_enable_regulators\<close> and \<open>release\<close> =
  \<open>arm_smmu_disable_regulators\<close>, in an environment whose regulator, bus and clock calls
  succeed and as long as the 32-bit count does not wrap: \<open>N\<close> acquires followed by \<open>N\<close>
  releases all return 0 and give back the machine they started from, up to the calls
  \<open>new\<close> appended to the call history; replaying \<open>new\<close> leaves the rail, the bus vote and
  every clock as they were (the bus vote being 0 when nothing holds the gate); and when the
  run starts at count 0, \<open>new\<close> is the bring-up of the first acquire followed by its mirror
  image in reverse order. In any environment, a release at count 0 returns \<open>-EINVAL\<close>
  and only logs the warning: count, call history and so the hardware are unchanged.\<close>

theorem power_gate_reference_counting:
  "(platform_ok env \<and> unat (power_count s) + N < 2 ^ 32 \<and>
      (power_count s = 0 \<and> bus_client s \<noteq> 0 \<longrightarrow> bus_vote p = 0) \<longrightarrow>
      (\<exists>s1 new.
         repeat_op N (arm_smmu_enable_regulators env) s = (replicate N 0, s1) \<and>
         repeat_op N (arm_smmu_disable_regulators env) s1 =
           (replicate N 0, s\<lparr>calls := calls s @ new\<rparr>) \<and>
         platform_after p new = p \<and>
         (if power_count s = 0 \<and> 0 < N
          then new = bring_up_calls s @
                 map (mirror_call (regulator_defer s)) (rev (bring_up_calls s)) \<and>
               arm_smmu_enable_regulators env s =
                 (0, s\<lparr>calls := calls s @ bring_up_calls s, power_count := 1\<rparr>)
          else new = []))) \<and>
   (power_count t = 0 \<longrightarrow>
      arm_smmu_disable_regulators env' t =
        (- errno_code EINVAL, t\<lparr>logs := logs t @ [WARN_mismatched_power_count]\<rparr>))"
proof (intro conjI impI)
  assume h: "platform_ok env \<and> unat (power_count s) + N < 2 ^ 32 \<and>
      (power_count s = 0 \<and> bus_client s \<noteq> 0 \<longrightarrow> bus_vote p = 0)"
  then have ok: "platform_ok env" and b: "unat (power_count s) + N < 2 ^ 32"
    and bv: "power_count s = 0 \<and> bus_client s \<noteq> 0 \<longrightarrow> bus_vote p = 0"
    by auto
  let ?P = "\<lambda>s1 new. repeat_op N (arm_smmu_enable_regulators env) s = (replicate N 0, s1) \<and>
         repeat_op N (arm_smmu_disable_regulators env) s1 =
           (replicate N 0, s\<lparr>calls := calls s @ new\<rparr>) \<and>
         platform_after p new = p \<and>
         (if power_count s = 0 \<and> 0 < N
          then new = bring_up_calls s @
                 map (mirror_call (regulator_defer s)) (rev (bring_up_calls s)) \<and>
               arm_smmu_enable_regulators env s =
                 (0, s\<lparr>calls := calls s @ bring_up_calls s, power_count := 1\<rparr>)
          else new = [])"
  show "\<exists>s1 new. ?P s1 new"
  proof (cases "power_count s = 0")
    case False
    from round_trip_nonzero [OF ok False b]
    have "?P (s\<lparr>power_count := power_count s + of_nat N\<rparr>) []"
      using False by (simp add: platform_after_def)
    then show ?thesis by blast
  next
    case True
    show ?thesis
    proof (cases N)
      case 0
      then have "?P s []" by (simp add: platform_after_def)
      then show ?thesis by blast
    next
      case (Suc k)
      with b True have "Suc k < 2 ^ 32" by simp
      from round_trip_zero [OF ok True this] obtain s1 where
        r: "repeat_op (Suc k) (arm_smmu_enable_regulators env) s = (replicate (Suc k) 0, s1)"
           "repeat_op (Suc k) (arm_smmu_disable_regulators env) s1 =
             (replicate (Suc k) 0,
              s\<lparr>calls := calls s @ bring_up_calls s @
                 map (mirror_call (regulator_defer s)) (rev (bring_up_calls s))\<rparr>)"
        by blast
      have pr: "platform_after p (bring_up_calls s @
                 map (mirror_call (regulator_defer s)) (rev (bring_up_calls s))) = p"
        using bv True platform_round_trip [of s p] by (cases "bus_client s = 0") auto
      have "?P s1 (bring_up_calls s @
                 map (mirror_call (regulator_defer s)) (rev (bring_up_calls s)))"
        using r pr True Suc enable_regulators_first [OF ok True] by simp
      then show ?thesis by blast
    qed
  qed
next
  assume "power_count t = 0"
  then show "arm_smmu_disable_regulators env' t =
        (- errno_code EINVAL, t\<lparr>logs := logs t @ [WARN_mismatched_power_count]\<rparr>)"
    by (simp add: arm_smmu_disable_regulators_def log_def)
qed

theorem power_gate_reference_counting_witness:
  "\<exists>s1. repeat_op 2 (arm_smmu_enable_regulators env_ok) machine_off = ([0, 0], s1) \<and>
     repeat_op 2 (arm_smmu_disable_regulators env_ok) s1 =
       ([0, 0], machine_off\<lparr>calls :=
          [(regulator_enable, 0), (msm_bus_scale_client_update_request 1 1, 0),
           (clk_prepare 0, 0), (clk_prepare 1, 0),
           (clk_unprepare 1, 0), (clk_unprepare 0, 0),
           (msm_bus_scale_client_update_request 1 0, 0),
           (regulator_disable_deferred 0, 0)]\<rparr>) \<and>
     arm_smmu_disable_regulators env_ok machine_off =
       (- 22, machine_off\<lparr>logs := [WARN_mismatched_power_count]\<rparr>)"
proof -
  have 1: "platform_ok env_ok \<and> unat (power_count machine_off) + 2 < 2 ^ 32 \<and>
      (power_count machine_off = 0 \<and> bus_client machine_off \<noteq> 0 \<longrightarrow>
         bus_vote platform_off = 0)"
    by (simp add: platform_ok_env_ok machine_off_def platform_off_def)
  have 2: "power_count machine_off = 0" by (simp add: machine_off_def)
  have 3: "bring_up_calls machine_off =
      [(regulator_enable, 0), (msm_bus_scale_client_update_request 1 1, 0),
       (clk_prepare 0, 0), (clk_prepare 1, 0)]"
    by (simp add: bring_up_calls_def machine_off_def upt_rec)
  have 4: "calls machine_off = []" "logs machine_off = []" "regulator_defer machine_off = 0"
    by (simp_all add: machine_off_def)
  from power_gate_reference_counting
    [of env_ok machine_off 2 platform_off machine_off env_ok] 1 2 3 4
  show ?thesis by (auto simp: numeral_2_eq_2)
qed

text \<open>A release whose deferred regulator disable fails returns the error and leaves the
  rail on; and an acquire at count \<open>0xffffffff\<close> wraps the count to 0, after which the
  matching release is refused as a mismatch.\<close>

theorem power_gate_reference_counting_counterexample:
  "fst (arm_smmu_enable_regulators env_rail_stuck machine_off) = 0 \<and>
   fst (arm_smmu_disable_regulators env_rail_stuck
          (snd (arm_smmu_enable_regulators env_rail_stuck machine_off))) = - 5 \<and>
   rail platform_off = 0 \<and>
   rail (platform_after platform_off
           (calls (snd (arm_smmu_disable_regulators env_rail_stuck
                          (snd (arm_smmu_enable_regulators env_rail_stuck machine_off)))))) = 1 \<and>
   arm_smmu_enable_regulators env_ok (machine_off\<lparr>power_count := 0xffffffff\<rparr>) =
     (0, machine_off\<lparr>power_count := 0\<rparr>) \<and>
   arm_smmu_disable_regulators env_ok (machine_off\<lparr>power_count := 0\<rparr>) =
     (- 22, machine_off\<lparr>power_count := 0, logs := [WARN_mismatched_power_count]\<rparr>)"
proof -
  have stuck: "fst (arm_smmu_enable_regulators env_rail_stuck machine_off) = 0 \<and>
   fst (arm_smmu_disable_regulators env_rail_stuck
          (snd (arm_smmu_enable_regulators env_rail_stuck machine_off))) = - 5 \<and>
   rail platform_off = 0 \<and>
   rail (platform_after platform_off
           (calls (snd (arm_smmu_disable_regulators env_rail_stuck
                          (snd (arm_smmu_enable_regulators env_rail_stuck machine_off)))))) = 1"
    by (simp add: power_example_defs env_rail_stuck_def numeral_2_eq_2)
  have wrap: "arm_smmu_enable_regulators env_ok (machine_off\<lparr>power_count := 0xffffffff\<rparr>) =
     (0, machine_off\<lparr>power_count := 0\<rparr>) \<and>
   arm_smmu_disable_regulators env_ok (machine_off\<lparr>power_count := 0\<rparr>) =
     (- 22, machine_off\<lparr>power_count := 0, logs := [WARN_mismatched_power_count]\<rparr>)"
    by (simp add: arm_smmu_enable_regulators_def arm_smmu_disable_regulators_def log_def
        machine_off_def)
  from stuck wrap show ?thesis by simp
qed

section \<open>Frame properties of the power and clock gate\<close>

lemma prim_fault_trace [simp]:
  "fault_trace n (log m s) = fault_trace n s"
  "fault_trace n (call_void c s) = fault_trace n s"
  "fault_trace n (snd (call env c s)) = fault_trace n s"
  "fault_trace n (snd (readl_poll_timeout_atomic env a s)) = fault_trace n s"
  "fault_trace n (s\<lparr>power_count := pc\<rparr>) = fault_trace n s"
  "fault_trace n (s\<lparr>clock_refs_count := cc\<rparr>) = fault_trace n s"
  "fault_trace n (snd (readl_relaxed env a s)) =
     fault_trace n s @ (if a = (CB n, ARM_SMMU_CB_FSR) then [Readl a (fst (readl_relaxed env a s))] else [])"
  "fault_trace n (writel_relaxed v a s) =
     fault_trace n s @ (if a = (CB n, ARM_SMMU_CB_FSR) \<or> a = (CB n, ARM_SMMU_CB_RESUME)
                        then [Writel a v] else [])"
  "fault_trace n (writeq_relaxed w a s) =
     fault_trace n s @ (if a = (CB n, ARM_SMMU_CB_FSR) \<or> a = (CB n, ARM_SMMU_CB_RESUME)
                        then [Writeq a w] else [])"
  by (simp_all add: fault_trace_def log_def call_void_def call_def readl_poll_timeout_atomic_def
      readl_relaxed_def writel_relaxed_def writeq_relaxed_def Let_def)

lemma prim_probe_trace [simp]:
  "probe_trace n (log m s) = probe_trace n s"
  "probe_trace n (call_void c s) = probe_trace n s"
  "probe_trace n (snd (call env c s)) = probe_trace n s"
  "probe_trace n (snd (readl_poll_timeout_atomic env a s)) = probe_trace n s"
  "probe_trace n (s\<lparr>power_count := pc\<rparr>) = probe_trace n s"
  "probe_trace n (s\<lparr>clock_refs_count := cc\<rparr>) = probe_trace n s"
  "probe_trace n (snd (readl_relaxed env a s)) = probe_trace n s"
  "probe_trace n (writel_relaxed v a s) =
     probe_trace n s @ (if probe_write n (Writel a v) then [Writel a v] else [])"
  "probe_trace n (writeq_relaxed w a s) =
     probe_trace n s @ (if probe_write n (Writeq a w) then [Writeq a w] else [])"
  by (simp_all add: probe_trace_def log_def call_void_def call_def readl_poll_timeout_atomic_def
      readl_relaxed_def writel_relaxed_def writeq_relaxed_def Let_def)

lemma prim_probe_logs [simp]:
  "probe_logs (log m s) = probe_logs s @ (if is_probe_log m then [m] else [])"
  "probe_logs (call_void c s) = probe_logs s"
  "probe_logs (snd (call env c s)) = probe_logs s"
  "probe_logs (snd (readl_poll_timeout_atomic env a s)) = probe_logs s"
  "probe_logs (s\<lparr>power_count := pc\<rparr>) = probe_logs s"
  "probe_logs (s\<lparr>clock_refs_count := cc\<rparr>) = probe_logs s"
  "probe_logs (snd (readl_relaxed env a s)) = probe_logs s"
  "probe_logs (writel_relaxed v a s) = probe_logs s"
  "probe_logs (writeq_relaxed w a s) = probe_logs s"
  by (simp_all add: probe_logs_def log_def call_void_def call_def readl_poll_timeout_atomic_def
      readl_relaxed_def writel_relaxed_def writeq_relaxed_def Let_def)

lemma prim_static [simp]:
  "version (log m s) = version s" "options (log m s) = options s"
  "version (call_void c s) = version s" "options (call_void c s) = options s"
  "version (snd (call env c s)) = version s" "options (snd (call env c s)) = options s"
  "version (snd (readl_poll_timeout_atomic env a s)) = version s"
  "options (snd (readl_poll_timeout_atomic env a s)) = options s"
  "version (snd (readl_relaxed env a s)) = version s"
  "options (snd (readl_relaxed env a s)) = options s"
  "version (writel_relaxed v a s) = version s" "options (writel_relaxed v a s) = options s"
  "version (writeq_relaxed w a s) = version s" "options (writeq_relaxed w a s) = options s"
  by (simp_all add: log_def call_void_def call_def readl_poll_timeout_atomic_def
      readl_relaxed_def writel_relaxed_def writeq_relaxed_def Let_def)

lemma prim_reports [simp]:
  "reports (log m s) = reports s"
  "reports (call_void c s) = reports s @ (if is_report (c, 0) then [(c, 0)] else [])"
  "reports (snd (call env c s)) =
     reports s @ (if is_report (c, 0) then [(c, fst (call env c s))] else [])"
  "reports (snd (readl_poll_timeout_atomic env a s)) = reports s"
  "reports (s\<lparr>power_count := pc\<rparr>) = reports s"
  "reports (s\<lparr>clock_refs_count := cc\<rparr>) = reports s"
  "reports (snd (readl_relaxed env a s)) = reports s"
  "reports (writel_relaxed v a s) = reports s"
  "reports (writeq_relaxed w a s) = reports s"
  by (cases c; simp add: reports_def log_def call_void_def call_def readl_poll_timeout_atomic_def
      readl_relaxed_def writel_relaxed_def writeq_relaxed_def Let_def)+




lemma power_only_refl [simp, intro!]: "power_only s s"
  unfolding power_only_def
  by (rule exI [of _ "power_count s"], rule exI [of _ "clock_refs_count s"],
      rule exI [of _ "[]"], rule exI [of _ "[]"]) simp

lemma power_only_trans: "power_only s s1 \<Longrightarrow> power_only s1 s2 \<Longrightarrow> power_only s s2"
proof -
  assume "power_only s s1" and "power_only s1 s2"
  then obtain pc cc cs ls pc' cc' cs' ls' where
    1: "s1 = s\<lparr>power_count := pc, clock_refs_count := cc,
                calls := calls s @ cs, logs := logs s @ ls\<rparr>"
       "\<forall>c\<in>set cs. is_power_call (fst c)" "\<forall>l\<in>set ls. is_power_log l"
    and 2: "s2 = s1\<lparr>power_count := pc', clock_refs_count := cc',
                calls := calls s1 @ cs', logs := logs s1 @ ls'\<rparr>"
       "\<forall>c\<in>set cs'. is_power_call (fst c)" "\<forall>l\<in>set ls'. is_power_log l"
    unfolding power_only_def by blast
  show ?thesis
    unfolding power_only_def
    by (rule exI [of _ pc'], rule exI [of _ cc'], rule exI [of _ "cs @ cs'"],
        rule exI [of _ "ls @ ls'"]) (use 1 2 in auto)
qed

lemma power_only_prims:
  "is_power_log m \<Longrightarrow> power_only s (log m s)"
  "is_power_call c \<Longrightarrow> power_only s (call_void c s)"
  "is_power_call c \<Longrightarrow> power_only s (snd (call env c s))"
  "power_only s (s\<lparr>power_count := pc\<rparr>)"
  "power_only s (s\<lparr>clock_refs_count := cc\<rparr>)"
  unfolding power_only_def log_def call_void_def call_def Let_def
      apply (rule exI [of _ "power_count s"], rule exI [of _ "clock_refs_count s"],
        rule exI [of _ "[]"], rule exI [of _ "[m]"], simp)
     apply (rule exI [of _ "power_count s"], rule exI [of _ "clock_refs_count s"],
        rule exI [of _ "[(c, 0)]"], rule exI [of _ "[]"], simp)
    apply (rule exI [of _ "power_count s"], rule exI [of _ "clock_refs_count s"],
        rule exI [of _ "[(c, ext_ret env s c)]"], rule exI [of _ "[]"], simp)
   apply (rule exI [of _ pc], rule exI [of _ "clock_refs_count s"],
        rule exI [of _ "[]"], rule exI [of _ "[]"], simp)
  apply (rule exI [of _ "power_count s"], rule exI [of _ cc],
        rule exI [of _ "[]"], rule exI [of _ "[]"], simp)
  done

lemma po_log [intro!]: "power_only s s1 \<Longrightarrow> is_power_log m \<Longrightarrow> power_only s (log m s1)"
  by (erule power_only_trans) (erule power_only_prims)

lemma po_call_void [intro!]: "power_only s s1 \<Longrightarrow> is_power_call c \<Longrightarrow> power_only s (call_void c s1)"
  by (erule power_only_trans) (erule power_only_prims)

lemma po_call [intro!]: "power_only s s1 \<Longrightarrow> is_power_call c \<Longrightarrow> power_only s (snd (call env c s1))"
  by (erule power_only_trans) (erule power_only_prims)

lemma po_pc [intro!]: "power_only s s1 \<Longrightarrow> power_only s (s1\<lparr>power_count := pc\<rparr>)"
  by (erule power_only_trans) (rule power_only_prims)

lemma po_cc [intro!]: "power_only s s1 \<Longrightarrow> power_only s (s1\<lparr>clock_refs_count := cc\<rparr>)"
  by (erule power_only_trans) (rule power_only_prims)

lemma po_unprepare_down [intro!]: "power_only s s1 \<Longrightarrow> power_only s (unprepare_down i s1)"
proof (induction i arbitrary: s1)
  case 0
  then show ?case by simp
next
  case (Suc i)
  show ?case by simp (rule Suc.IH, rule po_call_void, rule Suc.prems, simp)
qed

lemma po_disable_down [intro!]: "power_only s s1 \<Longrightarrow> power_only s (disable_down i s1)"
proof (induction i arbitrary: s1)
  case 0
  then show ?case by simp
next
  case (Suc i)
  show ?case by simp (rule Suc.IH, rule po_call_void, rule Suc.prems, simp)
qed

lemma po_prepare_loop [intro!]:
  "power_only s s1 \<Longrightarrow> power_only s (snd (prepare_loop env k i s1))"
proof (induction env k i s1 rule: prepare_loop.induct)
  case (1 env k i s1)
  have c: "power_only s (snd (call env (clk_prepare i) s1))"
    using "1.prems" by auto
  show ?case
  proof (cases "i < k \<and> fst (call env (clk_prepare i) s1) = 0")
    case True
    then have "prepare_loop env k i s1 = prepare_loop env k (Suc i) (snd (call env (clk_prepare i) s1))"
      by (subst prepare_loop.simps) (simp add: case_prod_beta)
    moreover have "power_only s (snd (prepare_loop env k (Suc i) (snd (call env (clk_prepare i) s1))))"
      using True c by (intro "1.IH" [of "fst (call env (clk_prepare i) s1)"]) (simp_all add: prod_eq_iff)
    ultimately show ?thesis by simp
  next
    case False
    then show ?thesis
      using c "1.prems" by (subst prepare_loop.simps) (auto simp: case_prod_beta)
  qed
qed

lemma po_enable_loop [intro!]:
  "power_only s s1 \<Longrightarrow> power_only s (snd (enable_loop env k i s1))"
proof (induction env k i s1 rule: enable_loop.induct)
  case (1 env k i s1)
  have c: "power_only s (snd (call env (clk_enable i) s1))"
    using "1.prems" by auto
  show ?case
  proof (cases "i < k \<and> fst (call env (clk_enable i) s1) = 0")
    case True
    then have "enable_loop env k i s1 = enable_loop env k (Suc i) (snd (call env (clk_enable i) s1))"
      by (subst enable_loop.simps) (simp add: case_prod_beta)
    moreover have "power_only s (snd (enable_loop env k (Suc i) (snd (call env (clk_enable i) s1))))"
      using True c by (intro "1.IH" [of "fst (call env (clk_enable i) s1)"]) (simp_all add: prod_eq_iff)
    ultimately show ?thesis by simp
  next
    case False
    then show ?thesis
      using c "1.prems" by (subst enable_loop.simps) (auto simp: case_prod_beta Let_def)
  qed
qed

lemma po_bus [intro!]:
  "power_only s s1 \<Longrightarrow> power_only s (snd (arm_smmu_request_bus env s1))"
  "power_only s s1 \<Longrightarrow> power_only s (snd (arm_smmu_unrequest_bus env s1))"
  by (auto simp: arm_smmu_request_bus_def arm_smmu_unrequest_bus_def)

lemma po_enable_regulators [intro!]:
  "power_only s s1 \<Longrightarrow> power_only s (snd (arm_smmu_enable_regulators env s1))"
  by (auto simp: arm_smmu_enable_regulators_def arm_smmu_prepare_clocks_def
      case_prod_beta Let_def)

lemma po_disable_regulators [intro!]:
  "power_only s s1 \<Longrightarrow> power_only s (snd (arm_smmu_disable_regulators env s1))"
  by (auto simp: arm_smmu_disable_regulators_def arm_smmu_unprepare_clocks_def
      case_prod_beta Let_def)

lemma po_enable_clocks_atomic [intro!]:
  "power_only s s1 \<Longrightarrow> power_only s (snd (arm_smmu_enable_clocks_atomic env s1))"
  by (auto simp: arm_smmu_enable_clocks_atomic_def case_prod_beta Let_def)

lemma po_disable_clocks_atomic [intro!]:
  "power_only s s1 \<Longrightarrow> power_only s (arm_smmu_disable_clocks_atomic s1)"
  by (auto simp: arm_smmu_disable_clocks_atomic_def case_prod_beta Let_def)

lemma po_enable_clocks [intro!]:
  "power_only s s1 \<Longrightarrow> power_only s (snd (arm_smmu_enable_clocks env s1))"
  by (auto simp: arm_smmu_enable_clocks_def case_prod_beta Let_def)

lemma po_disable_clocks [intro!]:
  "power_only s s1 \<Longrightarrow> power_only s (arm_smmu_disable_clocks env s1)"
  by (auto simp: arm_smmu_disable_clocks_def case_prod_beta Let_def)


lemma power_only_frame:
  assumes "power_only s s'"
  shows "mmio s' = mmio s" "options s' = options s" "version s' = version s"
    "num_clocks s' = num_clocks s" "gdsc s' = gdsc s" "bus_client s' = bus_client s"
    "regulator_defer s' = regulator_defer s" "attach_count s' = attach_count s"
    "context_map s' = context_map s" "static_cbndx_list s' = static_cbndx_list s"
    "regs s' = regs s" "reg_global s' = reg_global s"
    "num_context_banks s' = num_context_banks s" "num_mapping_groups s' = num_mapping_groups s"
    "fault_trace n s' = fault_trace n s" "reports s' = reports s"
    "probe_trace n s' = probe_trace n s" "probe_logs s' = probe_logs s"
proof -
  from assms obtain pc cc cs ls where
    1: "s' = s\<lparr>power_count := pc, clock_refs_count := cc,
                calls := calls s @ cs, logs := logs s @ ls\<rparr>"
    and 2: "\<forall>c\<in>set cs. is_power_call (fst c)"
    and 3: "\<forall>l\<in>set ls. is_power_log l"
    unfolding power_only_def by blast
  have "\<And>c. is_report c \<Longrightarrow> \<not> is_power_call (fst c)"
    by (erule is_report.elims) simp
  with 2 have "filter is_report cs = []" by (auto simp: filter_empty_conv)
  moreover have "\<And>l. is_probe_log l \<Longrightarrow> \<not> is_power_log l"
    by (erule is_probe_log.elims) simp_all
  with 3 have "filter is_probe_log ls = []" by (auto simp: filter_empty_conv)
  ultimately show "probe_trace n s' = probe_trace n s" "probe_logs s' = probe_logs s"
    using 1 by (simp_all add: probe_trace_def probe_logs_def)
  from 1 \<open>filter is_report cs = []\<close> show "mmio s' = mmio s" "options s' = options s" "version s' = version s"
    "num_clocks s' = num_clocks s" "gdsc s' = gdsc s" "bus_client s' = bus_client s"
    "regulator_defer s' = regulator_defer s" "attach_count s' = attach_count s"
    "context_map s' = context_map s" "static_cbndx_list s' = static_cbndx_list s"
    "regs s' = regs s" "reg_global s' = reg_global s"
    "num_context_banks s' = num_context_banks s" "num_mapping_groups s' = num_mapping_groups s"
    "fault_trace n s' = fault_trace n s" "reports s' = reports s"
    by (simp_all add: fault_trace_def reports_def)
qed

lemmas enable_clocks_frame [simp] = power_only_frame [OF po_enable_clocks [OF power_only_refl]]
lemmas disable_clocks_frame [simp] = power_only_frame [OF po_disable_clocks [OF power_only_refl]]


lemma enable_loop_ok:
  "platform_ok env \<Longrightarrow> fst (enable_loop env k i s) = 0"
proof (induction env k i s rule: enable_loop.induct)
  case (1 env k i s)
  have c: "call env (clk_enable i) s = (0, s\<lparr>calls := calls s @ [(clk_enable i, 0)]\<rparr>)"
    using "1.prems" by (simp add: call_ok)
  show ?case
  proof (cases "i < k")
    case True
    with "1.IH" [OF True c [symmetric]] "1.prems" c show ?thesis
      by (subst enable_loop.simps) simp
  next
    case False
    then show ?thesis by (subst enable_loop.simps) simp
  qed
qed

lemma enable_regulators_ok: "platform_ok env \<Longrightarrow> fst (arm_smmu_enable_regulators env s) = 0"
  by (cases "power_count s = 0")
     (simp_all add: enable_regulators_first, simp add: arm_smmu_enable_regulators_def)

lemma enable_clocks_ok [simp]: "platform_ok env \<Longrightarrow> fst (arm_smmu_enable_clocks env s) = 0"
  by (simp add: arm_smmu_enable_clocks_def arm_smmu_enable_clocks_atomic_def case_prod_beta
      Let_def enable_regulators_ok enable_loop_ok)

section \<open>Properties of the fault handler\<close>

lemmas reg_defs = ARM_SMMU_GR0_TLBIVMID_def ARM_SMMU_GR0_sTLBGSYNC_def
  ARM_SMMU_GR0_sTLBGSTATUS_def ARM_SMMU_CB_def ARM_SMMU_CB_SCTLR_def ARM_SMMU_CB_RESUME_def
  ARM_SMMU_CB_FSR_def ARM_SMMU_CB_FAR_LO_def ARM_SMMU_CB_FAR_HI_def ARM_SMMU_CB_FSYNR0_def
  ARM_SMMU_CB_S1_TLBIASID_def ARM_SMMU_CB_TLBSYNC_def ARM_SMMU_CB_TLBSTATUS_def
  ARM_SMMU_CB_ATS1PR_def ARM_SMMU_CB_ATSR_def ARM_SMMU_CB_PAR_LO_def ARM_SMMU_CB_PAR_HI_def

lemma tlb_sync_poll_frame [simp]:
  "fault_trace n (tlb_sync_poll env k s) = fault_trace n s"
  "reports (tlb_sync_poll env k s) = reports s"
  by (induction k arbitrary: s; simp add: case_prod_beta)+

lemma tlb_frame [simp]:
  "fault_trace n (arm_smmu_tlb_sync_global env s) = fault_trace n s"
  "reports (arm_smmu_tlb_sync_global env s) = reports s"
  "fault_trace n (arm_smmu_tlb_sync_cb env n s) = fault_trace n s"
  "reports (arm_smmu_tlb_sync_cb env m s) = reports s"
  "fault_trace (unat (cbndx (cfg d))) (arm_smmu_tlb_inv_context env d s) =
     fault_trace (unat (cbndx (cfg d))) s"
  "reports (arm_smmu_tlb_inv_context env d s) = reports s"
  by (simp_all add: arm_smmu_tlb_sync_global_def arm_smmu_tlb_sync_cb_def
      arm_smmu_tlb_inv_context_def case_prod_beta reg_defs)

lemma halt_frame [simp]:
  "fault_trace n (snd (arm_smmu_restore_sec_cfg env s)) = fault_trace n s"
  "reports (snd (arm_smmu_restore_sec_cfg env s)) = reports s"
  "fault_trace n (snd (arm_smmu_wait_for_halt env s)) = fault_trace n s"
  "reports (snd (arm_smmu_wait_for_halt env s)) = reports s"
  "fault_trace n (snd (arm_smmu_halt' env w s)) = fault_trace n s"
  "reports (snd (arm_smmu_halt' env w s)) = reports s"
  "fault_trace n (arm_smmu_resume env s) = fault_trace n s"
  "reports (arm_smmu_resume env s) = reports s"
  by (simp_all add: arm_smmu_restore_sec_cfg_def arm_smmu_wait_for_halt_def
      arm_smmu_halt'_def arm_smmu_resume_def case_prod_beta Let_def)

lemma iova_to_phys_frame [simp]:
  "fault_trace n (snd (arm_smmu_iova_to_phys env d iova s)) = fault_trace n s"
  "reports (snd (arm_smmu_iova_to_phys env d iova s)) = reports s"
  "fault_trace n (snd (iova_to_phys_hard_err_unlock env d iova s)) = fault_trace n s"
  "reports (snd (iova_to_phys_hard_err_unlock env d iova s)) = reports s"
  by (simp_all add: arm_smmu_iova_to_phys_def iova_to_phys_hard_err_unlock_def case_prod_beta)

lemma iova_to_phys_hard_frame [simp]:
  "fault_trace (unat (cbndx (cfg d))) (snd (arm_smmu_iova_to_phys_hard' env d iova h s)) =
     fault_trace (unat (cbndx (cfg d))) s"
  "reports (snd (arm_smmu_iova_to_phys_hard' env d iova h s)) = reports s"
  by (simp_all add: arm_smmu_iova_to_phys_hard'_def arm_smmu_halt_def case_prod_beta Let_def
      reg_defs)

lemma verify_fault_frame [simp]:
  "fault_trace (unat (cbndx (cfg d))) (snd (arm_smmu_verify_fault env d iova fsr s)) =
     fault_trace (unat (cbndx (cfg d))) s @
       [Writel (ARM_SMMU_CB d ARM_SMMU_CB_RESUME) RESUME_TERMINATE,
        Writel (ARM_SMMU_CB d ARM_SMMU_CB_FSR) fsr]"
  "reports (snd (arm_smmu_verify_fault env d iova fsr s)) = reports s"
  by (simp_all add: arm_smmu_verify_fault_def verify_fault_prologue_def arm_smmu_halt_nowait_def
      arm_smmu_iova_to_phys_hard_no_halt_def case_prod_beta Let_def reg_defs)


lemma context_fault_finish_frame [simp]:
  "fault_trace (unat (cbndx (cfg d))) (snd (context_fault_finish env d h fsr tmp ret s)) =
     fault_trace (unat (cbndx (cfg d))) s @
       (if tmp = - errno_code EBUSY then []
        else Writel (CB (unat (cbndx (cfg d))), ARM_SMMU_CB_FSR) fsr #
             resume_if_stalled (unat (cbndx (cfg d))) fsr)"
  "reports (snd (context_fault_finish env d h fsr tmp ret s)) = reports s"
  "fst (context_fault_finish env d h fsr tmp ret s) = Inr ret"
  by (simp_all add: context_fault_finish_def resume_if_stalled_def Let_def reg_defs)

lemma context_fault_core:
  assumes "reports (snd (arm_smmu_context_fault env d s)) =
             reports s @ [(report_iommu_fault iova flags, tmp)]"
  shows "fault_trace (unat (cbndx (cfg d))) (snd (arm_smmu_context_fault env d s)) =
           fault_trace (unat (cbndx (cfg d))) s @
             fault_register_accesses (unat (cbndx (cfg d))) (non_fatal_faults d) tmp
               (fst (readl_relaxed env (ARM_SMMU_CB d ARM_SMMU_CB_FSR)
                  (snd (arm_smmu_enable_clocks env s))))"
  using assms
  by (auto simp: arm_smmu_context_fault_def case_prod_beta Let_def reg_defs
      fault_register_accesses_def split: if_splits)

lemma context_fault_ret:
  assumes "reports (snd (arm_smmu_context_fault env d s)) =
             reports s @ [(report_iommu_fault iova flags, tmp)]"
  shows "fst (arm_smmu_context_fault env d s) =
           (if tmp = 0 \<or> tmp = - errno_code EBUSY then Inr IRQ_HANDLED
            else if non_fatal_faults d then Inr IRQ_NONE else Inl BUG)"
  using assms
  by (auto simp: arm_smmu_context_fault_def case_prod_beta Let_def reg_defs
      split: if_splits)

lemma platform_ok_env_fault [simp]: "platform_ok (env_fault tmp fsr)"
  unfolding platform_ok_def env_fault_def
  by (intro allI impI) (erule is_power_call.elims; simp)

lemma env_fault_answers [simp]:
  "fst (call (env_fault tmp fsr) (report_iommu_fault i f) s) = tmp"
  "fst (readl_relaxed (env_fault tmp fsr) a s) = (if a = (CB 0, ARM_SMMU_CB_FSR) then fsr else 0)"
  by (simp_all add: call_def readl_relaxed_def env_fault_def)

lemma domain_attached_simps [simp]:
  "smmu domain_attached" "cbndx (cfg domain_attached) = 0" "non_fatal_faults domain_attached"
  "pgtbl_ops domain_attached"
  by (simp_all add: domain_attached_def arm_smmu_domain_alloc_def)

lemma context_fault_example_reports:
  assumes "fsr AND FSR_FAULT \<noteq> 0" "options s AND ARM_SMMU_OPT_FATAL_ASF = 0"
  shows "reports (snd (arm_smmu_context_fault (env_fault tmp fsr) domain_attached s)) =
     reports s @ [(report_iommu_fault 0 (fault_flags fsr 0), tmp)]"
  using assms
  by (simp add: arm_smmu_context_fault_def case_prod_beta Let_def reg_defs)


lemma tlb_sync_poll_probe [simp]:
  "probe_trace n (tlb_sync_poll env k s) = probe_trace n s"
  "probe_logs (tlb_sync_poll env k s) = probe_logs s"
  "version (tlb_sync_poll env k s) = version s"
  "options (tlb_sync_poll env k s) = options s"
  by (induction k arbitrary: s; simp add: case_prod_beta reg_defs)+

lemma tlb_probe [simp]:
  "probe_trace n (arm_smmu_tlb_sync_global env s) =
     probe_trace n s @ [Writel (GR0, ARM_SMMU_GR0_sTLBGSYNC) 0]"
  "probe_logs (arm_smmu_tlb_sync_global env s) = probe_logs s"
  "version (arm_smmu_tlb_sync_global env s) = version s"
  "options (arm_smmu_tlb_sync_global env s) = options s"
  "probe_trace n (arm_smmu_tlb_sync_cb env m s) =
     probe_trace n s @ (if m = n then [Writel (CB m, ARM_SMMU_CB_TLBSYNC) 0] else [])"
  "probe_logs (arm_smmu_tlb_sync_cb env m s) = probe_logs s"
  "version (arm_smmu_tlb_sync_cb env m s) = version s"
  "options (arm_smmu_tlb_sync_cb env m s) = options s"
  "probe_logs (arm_smmu_tlb_inv_context env d s) = probe_logs s"
  "version (arm_smmu_tlb_inv_context env d s) = version s"
  "options (arm_smmu_tlb_inv_context env d s) = options s"
  by (simp_all add: arm_smmu_tlb_sync_global_def arm_smmu_tlb_sync_cb_def
      arm_smmu_tlb_inv_context_def case_prod_beta reg_defs)

lemma tlb_inv_context_probe [simp]:
  "smmu d \<Longrightarrow> probe_trace (unat (cbndx (cfg d))) (arm_smmu_tlb_inv_context env d s) =
     probe_trace (unat (cbndx (cfg d))) s @ [tlbi_context_write d, tlb_sync_write d]"
  by (simp add: arm_smmu_tlb_inv_context_def tlbi_context_write_def tlb_sync_write_def
      reg_defs)

lemma halt_probe [simp]:
  "probe_trace n (snd (arm_smmu_restore_sec_cfg env s)) = probe_trace n s"
  "probe_logs (snd (arm_smmu_restore_sec_cfg env s)) = probe_logs s"
  "version (snd (arm_smmu_restore_sec_cfg env s)) = version s"
  "options (snd (arm_smmu_restore_sec_cfg env s)) = options s"
  "probe_trace n (snd (arm_smmu_wait_for_halt env s)) = probe_trace n s"
  "probe_logs (snd (arm_smmu_wait_for_halt env s)) = probe_logs s"
  "version (snd (arm_smmu_wait_for_halt env s)) = version s"
  "options (snd (arm_smmu_wait_for_halt env s)) = options s"
  "probe_trace n (snd (arm_smmu_halt' env w s)) = probe_trace n s"
  "probe_logs (snd (arm_smmu_halt' env w s)) = probe_logs s"
  "version (snd (arm_smmu_halt' env w s)) = version s"
  "options (snd (arm_smmu_halt' env w s)) = options s"
  "probe_trace n (arm_smmu_resume env s) = probe_trace n s"
  "probe_logs (arm_smmu_resume env s) = probe_logs s"
  "version (arm_smmu_resume env s) = version s"
  "options (arm_smmu_resume env s) = options s"
  by (simp_all add: arm_smmu_restore_sec_cfg_def arm_smmu_wait_for_halt_def
      arm_smmu_halt'_def arm_smmu_resume_def arm_smmu_is_static_cb_def case_prod_beta Let_def)

lemma iova_to_phys_probe [simp]:
  "probe_trace n (snd (arm_smmu_iova_to_phys env d iova s)) = probe_trace n s"
  "probe_logs (snd (arm_smmu_iova_to_phys env d iova s)) = probe_logs s"
  "version (snd (arm_smmu_iova_to_phys env d iova s)) = version s"
  "options (snd (arm_smmu_iova_to_phys env d iova s)) = options s"
  "probe_trace n (snd (iova_to_phys_hard_err_unlock env d iova s)) = probe_trace n s"
  "probe_logs (snd (iova_to_phys_hard_err_unlock env d iova s)) = probe_logs s"
  "version (snd (iova_to_phys_hard_err_unlock env d iova s)) = version s"
  "options (snd (iova_to_phys_hard_err_unlock env d iova s)) = options s"
  "fst (iova_to_phys_hard_err_unlock env d iova s) = 0"
  by (simp_all add: arm_smmu_iova_to_phys_def iova_to_phys_hard_err_unlock_def case_prod_beta)

lemma probe_no_halt:
  "probe_trace (unat (cbndx (cfg d))) (snd (arm_smmu_iova_to_phys_hard_no_halt env d iova s)) =
           probe_trace (unat (cbndx (cfg d))) s @
             (if probe_clocked env s then [ats1pr_write s d iova] else [])"
  "version (snd (arm_smmu_iova_to_phys_hard_no_halt env d iova s)) = version s"
  "options (snd (arm_smmu_iova_to_phys_hard_no_halt env d iova s)) = options s"
  "probe_logs (snd (arm_smmu_iova_to_phys_hard_no_halt env d iova s)) =
           probe_logs s @
             (if probe_timed_out env d iova s then [err_iova_to_phys_timed_out] else [])"
  "probe_timed_out env d iova s \<Longrightarrow>
           fst (arm_smmu_iova_to_phys_hard_no_halt env d iova s) = 0"
  by (simp_all add: arm_smmu_iova_to_phys_hard_no_halt_def arm_smmu_iova_to_phys_hard'_def
      case_prod_beta Let_def reg_defs ats1pr_write_def probe_timed_out_def probe_clocked_def)

lemma prologue_probe [simp]:
  "probe_trace (unat (cbndx (cfg d))) (snd (verify_fault_prologue env d fsr s)) =
     probe_trace (unat (cbndx (cfg d))) s"
  "probe_logs (snd (verify_fault_prologue env d fsr s)) = probe_logs s"
  "version (snd (verify_fault_prologue env d fsr s)) = version s"
  by (simp_all add: verify_fault_prologue_def arm_smmu_halt_nowait_def case_prod_beta Let_def
      reg_defs)



lemma machine_off_simps [simp]:
  "options machine_off = 0" "fault_trace n machine_off = []" "reports machine_off = []"
  by (simp_all add: machine_off_def fault_trace_def reports_def)

text \<open>Claim C4, as amended. In a run of the context fault handler that reported the fault
  to the domain owner and got \<open>tmp\<close> back, with \<open>fsr\<close> the value read from the fault-status
  register: if \<open>tmp\<close> is \<open>-EBUSY\<close> the handler writes neither the fault-status register nor
  RESUME; if \<open>tmp\<close> is 0 it writes the fault-status register exactly once, with \<open>fsr\<close>, and
  afterwards RESUME (terminate) exactly when the stall bit is set in \<open>fsr\<close>; for any other
  result the diagnostic probe first writes RESUME (terminate) and then \<open>fsr\<close> to the
  fault-status register, after which a non-fatal domain gets \<open>fsr\<close> written once more,
  followed by RESUME (terminate) exactly when the stall bit is set, and any other domain
  stops the system with no further write. The handler returns \<open>IRQ_HANDLED\<close> in the first
  two cases and \<open>IRQ_NONE\<close> for an unhandled fault on a non-fatal domain.\<close>

theorem context_fault_register_protocol:
  assumes "arm_smmu_context_fault env d s = (ret, s')"
    and "reports s' = reports s @ [(report_iommu_fault iova flags, tmp)]"
    and "n = unat (cbndx (cfg d))"
  shows "\<exists>fsr. fault_trace n s' =
           fault_trace n s @ fault_register_accesses n (non_fatal_faults d) tmp fsr \<and>
         ret = (if tmp = 0 \<or> tmp = - errno_code EBUSY then Inr IRQ_HANDLED
                else if non_fatal_faults d then Inr IRQ_NONE else Inl BUG)"
proof -
  have r: "reports (snd (arm_smmu_context_fault env d s)) =
      reports s @ [(report_iommu_fault iova flags, tmp)]"
    using assms(1,2) by simp
  from context_fault_core [OF r] context_fault_ret [OF r] assms(1,3) show ?thesis
    by auto
qed

text \<open>A run in which the owner answers \<open>-EBUSY\<close> to a translation fault.\<close>

theorem context_fault_register_protocol_witness:
  "\<exists>fsr. fault_trace 0 (snd (arm_smmu_context_fault (env_fault (- 16) FSR_TF)
              domain_attached machine_off)) = [Readl (CB 0, ARM_SMMU_CB_FSR) fsr] \<and>
     fst (arm_smmu_context_fault (env_fault (- 16) FSR_TF) domain_attached machine_off) =
       Inr IRQ_HANDLED"
proof -
  let ?h = "arm_smmu_context_fault (env_fault (- 16) FSR_TF) domain_attached machine_off"
  have 1: "?h = (fst ?h, snd ?h)" by simp
  have 2: "reports (snd ?h) = reports machine_off @
      [(report_iommu_fault 0 (fault_flags FSR_TF 0), - 16)]"
    by (rule context_fault_example_reports)
       (simp_all add: FSR_TF_def FSR_FAULT_def FSR_MULTI_def FSR_SS_def FSR_UUT_def FSR_EF_def
          FSR_PF_def FSR_IGN_def FSR_AFF_def FSR_ASF_def FSR_TLBMCF_def FSR_TLBLKF_def)
  have 3: "(0::nat) = unat (cbndx (cfg domain_attached))" by simp
  from context_fault_register_protocol [OF 1 2 3] show ?thesis
    by (simp add: fault_register_accesses_def)
qed

text \<open>Claim C4 as stated fails when the owner returns \<open>-ENOSYS\<close> (-38) for a translation
  fault without stall on a non-fatal domain: RESUME is written although the stall bit is
  clear, before the fault-status register, which is then written twice.\<close>

theorem context_fault_register_protocol_counterexample:
  "reports (snd (arm_smmu_context_fault (env_fault (- 38) FSR_TF) domain_attached machine_off)) =
     [(report_iommu_fault 0 [IOMMU_FAULT_READ, IOMMU_FAULT_TRANSLATION], - 38)] \<and>
   fault_trace 0 (snd (arm_smmu_context_fault (env_fault (- 38) FSR_TF) domain_attached
       machine_off)) =
     [Readl (CB 0, ARM_SMMU_CB_FSR) FSR_TF,
      Writel (CB 0, ARM_SMMU_CB_RESUME) RESUME_TERMINATE,
      Writel (CB 0, ARM_SMMU_CB_FSR) FSR_TF,
      Writel (CB 0, ARM_SMMU_CB_FSR) FSR_TF] \<and>
   FSR_TF AND FSR_SS = 0"
proof -
  let ?h = "arm_smmu_context_fault (env_fault (- 38) FSR_TF) domain_attached machine_off"
  have r: "reports (snd ?h) = reports machine_off @
      [(report_iommu_fault 0 (fault_flags FSR_TF 0), - 38)]"
    by (rule context_fault_example_reports)
       (simp_all add: FSR_TF_def FSR_FAULT_def FSR_MULTI_def FSR_SS_def FSR_UUT_def FSR_EF_def
          FSR_PF_def FSR_IGN_def FSR_AFF_def FSR_ASF_def FSR_TLBMCF_def FSR_TLBLKF_def)
  have f: "fault_flags FSR_TF 0 = [IOMMU_FAULT_READ, IOMMU_FAULT_TRANSLATION]"
    by (simp add: fault_flags_def FSR_TF_def FSR_PF_def FSR_EF_def FSR_SS_def)
  have z: "FSR_TF AND FSR_SS = 0" by (simp add: FSR_TF_def FSR_SS_def)
  from context_fault_core [OF r] r f z show ?thesis
    by (simp add: fault_register_accesses_def resume_if_stalled_def ARM_SMMU_CB_def)
qed

text \<open>Claim C5, as amended. In a run of the context fault handler whose report to the
  domain owner returned \<open>-EBUSY\<close>, the handler writes neither the fault-status register
  nor RESUME and leaves both to the owner. When the report returned success (0), the
  handler itself clears the fault: it writes the value it read back to the fault-status
  register once and then writes RESUME (terminate) exactly when the stall bit was set.
  In both cases it returns \<open>IRQ_HANDLED\<close>.\<close>

theorem context_fault_owner_keeps_or_clears:
  assumes "arm_smmu_context_fault env d s = (ret, s')"
    and "reports s' = reports s @ [(report_iommu_fault iova flags, tmp)]"
    and "tmp = 0 \<or> tmp = - errno_code EBUSY"
    and "n = unat (cbndx (cfg d))"
  shows "ret = Inr IRQ_HANDLED \<and>
         (\<exists>fsr. fault_trace n s' = fault_trace n s @
            Readl (CB n, ARM_SMMU_CB_FSR) fsr #
            (if tmp = - errno_code EBUSY then []
             else Writel (CB n, ARM_SMMU_CB_FSR) fsr # resume_if_stalled n fsr))"
proof -
  have r: "reports (snd (arm_smmu_context_fault env d s)) =
      reports s @ [(report_iommu_fault iova flags, tmp)]"
    using assms(1,2) by simp
  from context_fault_core [OF r] context_fault_ret [OF r] assms(1,3,4) show ?thesis
    by (auto simp: fault_register_accesses_def)
qed

text \<open>A run in which the owner answers success to a translation fault.\<close>

theorem context_fault_owner_keeps_or_clears_witness:
  "fst (arm_smmu_context_fault (env_fault 0 FSR_TF) domain_attached machine_off) =
     Inr IRQ_HANDLED \<and>
   (\<exists>fsr. fault_trace 0 (snd (arm_smmu_context_fault (env_fault 0 FSR_TF)
              domain_attached machine_off)) =
      Readl (CB 0, ARM_SMMU_CB_FSR) fsr # Writel (CB 0, ARM_SMMU_CB_FSR) fsr #
        resume_if_stalled 0 fsr)"
proof -
  let ?h = "arm_smmu_context_fault (env_fault 0 FSR_TF) domain_attached machine_off"
  have 1: "?h = (fst ?h, snd ?h)" by simp
  have 2: "reports (snd ?h) = reports machine_off @
      [(report_iommu_fault 0 (fault_flags FSR_TF 0), 0)]"
    by (rule context_fault_example_reports)
       (simp_all add: FSR_TF_def FSR_FAULT_def FSR_MULTI_def FSR_SS_def FSR_UUT_def FSR_EF_def
          FSR_PF_def FSR_IGN_def FSR_AFF_def FSR_ASF_def FSR_TLBMCF_def FSR_TLBLKF_def)
  have 3: "(0::int) = 0 \<or> (0::int) = - errno_code EBUSY" by simp
  have 4: "(0::nat) = unat (cbndx (cfg domain_attached))" by simp
  from context_fault_owner_keeps_or_clears [OF 1 2 3 4] show ?thesis
    by simp
qed

text \<open>Claim C5 as stated fails when the owner returns success for a stalled translation
  fault: the handler clears the fault status and writes RESUME.\<close>

theorem context_fault_owner_keeps_or_clears_counterexample:
  "reports (snd (arm_smmu_context_fault (env_fault 0 (FSR_SS OR FSR_TF)) domain_attached
       machine_off)) =
     [(report_iommu_fault 0
         [IOMMU_FAULT_READ, IOMMU_FAULT_TRANSLATION, IOMMU_FAULT_TRANSACTION_STALLED], 0)] \<and>
   fault_trace 0 (snd (arm_smmu_context_fault (env_fault 0 (FSR_SS OR FSR_TF)) domain_attached
       machine_off)) =
     [Readl (CB 0, ARM_SMMU_CB_FSR) (FSR_SS OR FSR_TF),
      Writel (CB 0, ARM_SMMU_CB_FSR) (FSR_SS OR FSR_TF),
      Writel (CB 0, ARM_SMMU_CB_RESUME) RESUME_TERMINATE]"
proof -
  let ?h = "arm_smmu_context_fault (env_fault 0 (FSR_SS OR FSR_TF)) domain_attached machine_off"
  have r: "reports (snd ?h) = reports machine_off @
      [(report_iommu_fault 0 (fault_flags (FSR_SS OR FSR_TF) 0), 0)]"
    by (rule context_fault_example_reports)
       (simp_all add: FSR_TF_def FSR_FAULT_def FSR_MULTI_def FSR_SS_def FSR_UUT_def FSR_EF_def
          FSR_PF_def FSR_IGN_def FSR_AFF_def FSR_ASF_def FSR_TLBMCF_def FSR_TLBLKF_def)
  have f: "fault_flags (FSR_SS OR FSR_TF) 0 =
      [IOMMU_FAULT_READ, IOMMU_FAULT_TRANSLATION, IOMMU_FAULT_TRANSACTION_STALLED]"
    by (simp add: fault_flags_def FSR_TF_def FSR_PF_def FSR_EF_def FSR_SS_def)
  have z: "(FSR_SS OR FSR_TF) AND FSR_SS \<noteq> 0" by (simp add: FSR_TF_def FSR_SS_def)
  from context_fault_core [OF r] r f z show ?thesis
    by (simp add: fault_register_accesses_def resume_if_stalled_def ARM_SMMU_CB_def)
qed


section \<open>Properties of the hardware translation probe\<close>

lemma env_ok_answers [simp]:
  "fst (call env_ok c s) = 0"
  "fst (readl_relaxed env_ok a s) = 0"
  "fst (readl_poll_timeout_atomic env_ok a s) = False"
  by (simp_all add: call_def readl_relaxed_def readl_poll_timeout_atomic_def env_ok_def)

lemma probe_env_ok [simp]:
  "probe_clocked env_ok s"
  "\<not> probe_timed_out env_ok d iova s"
  "fst (arm_smmu_iova_to_phys_hard_no_halt env_ok d 0x1000 s) = 0"
  by (simp_all add: probe_clocked_def probe_timed_out_def platform_ok_env_ok Let_def
      arm_smmu_iova_to_phys_hard_no_halt_def arm_smmu_iova_to_phys_hard'_def case_prod_beta
      CB_PAR_F_def PHYS_MASK_def)

lemma probe_result:
  "fst (arm_smmu_iova_to_phys_hard_no_halt env d iova s) =
     (if probe_clocked env s \<and> \<not> probe_timed_out env d iova s
      then par_result (probe_par_lo env d iova s) (probe_par_hi env d iova s) iova else 0)"
  by (simp add: arm_smmu_iova_to_phys_hard_no_halt_def arm_smmu_iova_to_phys_hard'_def
      case_prod_beta Let_def probe_timed_out_def probe_clocked_def probe_polled_def
      probe_par_lo_def probe_par_hi_def par_result_def readl_relaxed_def)

text \<open>Claim C9. In \<open>arm_smmu_verify_fault\<close> on an attached domain, let \<open>phys1\<close> be
  the result of the first probe and \<open>phys2\<close> the result of a probe started after the
  retry message and the TLB invalidation of the context. The function returns \<open>phys1\<close>
  when it is not 0 and \<open>phys2\<close> otherwise. A probe that gets its clocks and whose
  \<open>ATSR\<close> poll does not time out returns the address made of the two halves of \<open>PAR\<close> it
  then reads: the page of the physical address with the offset of \<open>iova\<close>, or 0 when the
  fault bit of \<open>PAR\<close> is set; any other probe returns 0. The probe and invalidation writes
  the function adds are the first probe's write to \<open>ATS1PR\<close> and, only when \<open>phys1\<close> is
  0, the context invalidation and the start of the TLB synchronisation followed by one
  more write to \<open>ATS1PR\<close> (each probe writes once its clocks are on): the probe is
  retried exactly once, after the invalidation.
  The log gets the retry message and then either the success or the still-failed
  message, so both failures are logged; a probe whose \<open>ATSR\<close> poll times out logs the
  timeout and returns 0.\<close>

theorem verify_fault_probe_retry:
  assumes "smmu d" and "n = unat (cbndx (cfg d))"
    and "verify_fault_prologue env d fsr s = (sctlr_orig, s0)"
    and "arm_smmu_iova_to_phys_hard_no_halt env d iova s0 = (phys1, s1)"
    and "sr = arm_smmu_tlb_inv_context env d (log err_atos_failed_retry s1)"
    and "arm_smmu_iova_to_phys_hard_no_halt env d iova sr = (phys2, s2)"
    and "arm_smmu_verify_fault env d iova fsr s = (phys, s')"
  shows "phys = (if phys1 \<noteq> 0 then phys1 else phys2) \<and>
         probe_trace n s' = probe_trace n s @
           (if probe_clocked env s0 then [ats1pr_write s d iova] else []) @
           (if phys1 \<noteq> 0 then []
            else tlbi_context_write d # tlb_sync_write d #
                 (if probe_clocked env sr then [ats1pr_write s d iova] else [])) \<and>
         probe_logs s' = probe_logs s @
           (if probe_timed_out env d iova s0 then [err_iova_to_phys_timed_out] else []) @
           (if phys1 \<noteq> 0 then []
            else err_atos_failed_retry #
                 (if probe_timed_out env d iova sr then [err_iova_to_phys_timed_out] else []) @
                 [if phys2 \<noteq> 0 then err_atos_succeeded_second_time
                  else err_atos_still_failed]) \<and>
         (probe_timed_out env d iova s0 \<longrightarrow> phys1 = 0) \<and>
         (probe_timed_out env d iova sr \<longrightarrow> phys2 = 0) \<and>
         phys1 = (if probe_clocked env s0 \<and> \<not> probe_timed_out env d iova s0
                  then par_result (probe_par_lo env d iova s0) (probe_par_hi env d iova s0) iova
                  else 0) \<and>
         phys2 = (if probe_clocked env sr \<and> \<not> probe_timed_out env d iova sr
                  then par_result (probe_par_lo env d iova sr) (probe_par_hi env d iova sr) iova
                  else 0)"
proof -
  have s0: "s0 = snd (verify_fault_prologue env d fsr s)" using assms(3) by simp
  have s1: "s1 = snd (arm_smmu_iova_to_phys_hard_no_halt env d iova s0)"
    and f1: "phys1 = fst (arm_smmu_iova_to_phys_hard_no_halt env d iova s0)"
    using assms(4) by simp_all
  have s2: "s2 = snd (arm_smmu_iova_to_phys_hard_no_halt env d iova sr)"
    and f2: "phys2 = fst (arm_smmu_iova_to_phys_hard_no_halt env d iova sr)"
    using assms(6) by simp_all
  have v0: "version s0 = version s" by (simp add: s0)
  have v1: "version sr = version s" by (simp add: assms(5) s1 probe_no_halt v0)
  have a0: "ats1pr_write s0 d iova = ats1pr_write s d iova"
    and a1: "ats1pr_write sr d iova = ats1pr_write s d iova"
    using v0 v1 by (simp_all add: ats1pr_write_def)
  have t1: "probe_trace n s1 = probe_trace n s @
      (if probe_clocked env s0 then [ats1pr_write s d iova] else [])"
    by (simp add: s1 assms(2) probe_no_halt a0) (simp add: s0)
  have l1: "probe_logs s1 = probe_logs s @
      (if probe_timed_out env d iova s0 then [err_iova_to_phys_timed_out] else [])"
    by (simp add: s1 probe_no_halt) (simp add: s0)
  have tr: "probe_trace n sr = probe_trace n s1 @ [tlbi_context_write d, tlb_sync_write d]"
    and lr: "probe_logs sr = probe_logs s1 @ [err_atos_failed_retry]"
    using assms(1) by (simp_all add: assms(2,5))
  have t2: "probe_trace n s2 = probe_trace n sr @
      (if probe_clocked env sr then [ats1pr_write s d iova] else [])"
    by (simp add: s2 assms(2) probe_no_halt a1)
  have l2: "probe_logs s2 = probe_logs sr @
      (if probe_timed_out env d iova sr then [err_iova_to_phys_timed_out] else [])"
    by (simp add: s2 probe_no_halt)
  have r: "(phys, s') =
      (if phys1 \<noteq> 0 then
         (phys1, arm_smmu_resume env
                   (writel_relaxed sctlr_orig (ARM_SMMU_CB d ARM_SMMU_CB_SCTLR) s1))
       else
         (phys2, arm_smmu_resume env
                   (writel_relaxed sctlr_orig (ARM_SMMU_CB d ARM_SMMU_CB_SCTLR)
                      (log (if phys2 \<noteq> 0 then err_atos_succeeded_second_time
                            else err_atos_still_failed) s2))))"
    using assms(3,4,6,7) by (auto simp: arm_smmu_verify_fault_def assms(5))
  have p1: "phys1 = (if probe_clocked env s0 \<and> \<not> probe_timed_out env d iova s0
                  then par_result (probe_par_lo env d iova s0) (probe_par_hi env d iova s0) iova
                  else 0)"
    unfolding f1 by (rule probe_result)
  have p2: "phys2 = (if probe_clocked env sr \<and> \<not> probe_timed_out env d iova sr
                  then par_result (probe_par_lo env d iova sr) (probe_par_hi env d iova sr) iova
                  else 0)"
    unfolding f2 by (rule probe_result)
  have main: "phys = (if phys1 \<noteq> 0 then phys1 else phys2) \<and>
         probe_trace n s' = probe_trace n s @
           (if probe_clocked env s0 then [ats1pr_write s d iova] else []) @
           (if phys1 \<noteq> 0 then []
            else tlbi_context_write d # tlb_sync_write d #
                 (if probe_clocked env sr then [ats1pr_write s d iova] else [])) \<and>
         probe_logs s' = probe_logs s @
           (if probe_timed_out env d iova s0 then [err_iova_to_phys_timed_out] else []) @
           (if phys1 \<noteq> 0 then []
            else err_atos_failed_retry #
                 (if probe_timed_out env d iova sr then [err_iova_to_phys_timed_out] else []) @
                 [if phys2 \<noteq> 0 then err_atos_succeeded_second_time
                  else err_atos_still_failed]) \<and>
         (probe_timed_out env d iova s0 \<longrightarrow> phys1 = 0) \<and>
         (probe_timed_out env d iova sr \<longrightarrow> phys2 = 0)"
  proof (cases "phys1 \<noteq> 0")
    case True
    with r have "phys = phys1" "s' = arm_smmu_resume env
                   (writel_relaxed sctlr_orig (ARM_SMMU_CB d ARM_SMMU_CB_SCTLR) s1)"
      by simp_all
    then show ?thesis
      using True t1 l1 probe_no_halt(5) [of env d iova s0] probe_no_halt(5) [of env d iova sr]
        f1 f2
      by (auto simp: reg_defs)
  next
    case False
    with r have "phys = phys2" "s' = arm_smmu_resume env
                   (writel_relaxed sctlr_orig (ARM_SMMU_CB d ARM_SMMU_CB_SCTLR)
                      (log (if phys2 \<noteq> 0 then err_atos_succeeded_second_time
                            else err_atos_still_failed) s2))"
      by simp_all
    then show ?thesis
      using False t1 l1 tr lr t2 l2 probe_no_halt(5) [of env d iova s0]
        probe_no_halt(5) [of env d iova sr] f1 f2
      by (auto simp: reg_defs)
  qed
  from main p1 p2 show ?thesis by simp
qed

text \<open>A probe of an unmapped address that fails twice, and a probe that times out, is
  retried after the invalidation and then resolves the address.\<close>

theorem verify_fault_probe_retry_witness:
  "fst (arm_smmu_verify_fault env_ok domain_attached 0x1000 2 machine_off) = 0 \<and>
   probe_trace 0 (snd (arm_smmu_verify_fault env_ok domain_attached 0x1000 2 machine_off)) =
     [Writeq (CB 0, ARM_SMMU_CB_ATS1PR) 0x1000,
      Writel (CB 0, ARM_SMMU_CB_S1_TLBIASID) 1,
      Writel (CB 0, ARM_SMMU_CB_TLBSYNC) 0,
      Writeq (CB 0, ARM_SMMU_CB_ATS1PR) 0x1000] \<and>
   probe_logs (snd (arm_smmu_verify_fault env_ok domain_attached 0x1000 2 machine_off)) =
     [err_atos_failed_retry, err_atos_still_failed] \<and>
   fst (arm_smmu_verify_fault env_retry domain_attached 0x1234 2 machine_off) = 0x80005234 \<and>
   probe_trace 0 (snd (arm_smmu_verify_fault env_retry domain_attached 0x1234 2 machine_off)) =
     [Writeq (CB 0, ARM_SMMU_CB_ATS1PR) 0x1000,
      Writel (CB 0, ARM_SMMU_CB_S1_TLBIASID) 1,
      Writel (CB 0, ARM_SMMU_CB_TLBSYNC) 0,
      Writeq (CB 0, ARM_SMMU_CB_ATS1PR) 0x1000] \<and>
   probe_logs (snd (arm_smmu_verify_fault env_retry domain_attached 0x1234 2 machine_off)) =
     [err_iova_to_phys_timed_out, err_atos_failed_retry, err_atos_succeeded_second_time]"
proof -
  have 1: "smmu domain_attached" by simp
  have 2: "(0::nat) = unat (cbndx (cfg domain_attached))" by simp
  have 7: "probe_trace 0 machine_off = []" "probe_logs machine_off = []"
    by (simp_all add: probe_trace_def probe_logs_def machine_off_def)
  have 9: "tlbi_context_write domain_attached = Writel (CB 0, ARM_SMMU_CB_S1_TLBIASID) 1"
    "tlb_sync_write domain_attached = Writel (CB 0, ARM_SMMU_CB_TLBSYNC) 0"
    by (simp_all add: tlbi_context_write_def tlb_sync_write_def domain_attached_def
        arm_smmu_domain_alloc_def ARM_SMMU_CB_def CBAR_TYPE_S2_TRANS_def
        CBAR_TYPE_S1_TRANS_S2_BYPASS_def)
  have fails: "fst (arm_smmu_verify_fault env_ok domain_attached 0x1000 2 machine_off) = 0 \<and>
   probe_trace 0 (snd (arm_smmu_verify_fault env_ok domain_attached 0x1000 2 machine_off)) =
     [Writeq (CB 0, ARM_SMMU_CB_ATS1PR) 0x1000,
      Writel (CB 0, ARM_SMMU_CB_S1_TLBIASID) 1,
      Writel (CB 0, ARM_SMMU_CB_TLBSYNC) 0,
      Writeq (CB 0, ARM_SMMU_CB_ATS1PR) 0x1000] \<and>
   probe_logs (snd (arm_smmu_verify_fault env_ok domain_attached 0x1000 2 machine_off)) =
     [err_atos_failed_retry, err_atos_still_failed]"
  proof -
    let ?v = "arm_smmu_verify_fault env_ok domain_attached 0x1000 2 machine_off"
    let ?s0 = "snd (verify_fault_prologue env_ok domain_attached 2 machine_off)"
    let ?s1 = "snd (arm_smmu_iova_to_phys_hard_no_halt env_ok domain_attached 0x1000 ?s0)"
    let ?sr = "arm_smmu_tlb_inv_context env_ok domain_attached (log err_atos_failed_retry ?s1)"
    have 3: "verify_fault_prologue env_ok domain_attached 2 machine_off =
        (fst (verify_fault_prologue env_ok domain_attached 2 machine_off), ?s0)" by simp
    have 4: "arm_smmu_iova_to_phys_hard_no_halt env_ok domain_attached 0x1000 ?s0 = (0, ?s1)"
      by (simp add: prod_eq_iff)
    have 5: "arm_smmu_iova_to_phys_hard_no_halt env_ok domain_attached 0x1000 ?sr =
        (0, snd (arm_smmu_iova_to_phys_hard_no_halt env_ok domain_attached 0x1000 ?sr))"
      by (simp add: prod_eq_iff)
    have 6: "?v = (fst ?v, snd ?v)" by simp
    have 8: "ats1pr_write machine_off domain_attached 0x1000 =
        Writeq (CB 0, ARM_SMMU_CB_ATS1PR) 0x1000"
      by (simp add: ats1pr_write_def machine_off_def ARM_SMMU_CB_def)
    from verify_fault_probe_retry [OF 1 2 3 4 refl 5 6] 7 8 9 show ?thesis
      by simp
  qed
  have retried: "fst (arm_smmu_verify_fault env_retry domain_attached 0x1234 2 machine_off) =
     0x80005234 \<and>
   probe_trace 0 (snd (arm_smmu_verify_fault env_retry domain_attached 0x1234 2 machine_off)) =
     [Writeq (CB 0, ARM_SMMU_CB_ATS1PR) 0x1000,
      Writel (CB 0, ARM_SMMU_CB_S1_TLBIASID) 1,
      Writel (CB 0, ARM_SMMU_CB_TLBSYNC) 0,
      Writeq (CB 0, ARM_SMMU_CB_ATS1PR) 0x1000] \<and>
   probe_logs (snd (arm_smmu_verify_fault env_retry domain_attached 0x1234 2 machine_off)) =
     [err_iova_to_phys_timed_out, err_atos_failed_retry, err_atos_succeeded_second_time]"
  proof -
    let ?v = "arm_smmu_verify_fault env_retry domain_attached 0x1234 2 machine_off"
    let ?s0 = "snd (verify_fault_prologue env_retry domain_attached 2 machine_off)"
    let ?p1 = "arm_smmu_iova_to_phys_hard_no_halt env_retry domain_attached 0x1234 ?s0"
    let ?sr = "arm_smmu_tlb_inv_context env_retry domain_attached
                 (log err_atos_failed_retry (snd ?p1))"
    let ?p2 = "arm_smmu_iova_to_phys_hard_no_halt env_retry domain_attached 0x1234 ?sr"
    have ok: "platform_ok env_retry" by (simp add: platform_ok_def env_retry_def)
    have ck: "probe_clocked env_retry s" for s by (simp add: probe_clocked_def ok)
    have 8: "ats1pr_write machine_off domain_attached 0x1234 =
        Writeq (CB 0, ARM_SMMU_CB_ATS1PR) 0x1000"
      by (simp add: ats1pr_write_def machine_off_def ARM_SMMU_CB_def)
    have v0: "version ?s0 = ARM_SMMU_V2" by (simp add: machine_off_def)
    have t0: "probe_trace 0 ?s0 = []"
      using prologue_probe(1) [where d = domain_attached and env = env_retry and fsr = 2
          and s = machine_off] 7
      by simp
    have to0: "probe_timed_out env_retry domain_attached 0x1234 ?s0"
      using ck t0 v0
      by (simp add: probe_timed_out_def Let_def readl_poll_timeout_atomic_def env_retry_def
          ARM_SMMU_CB_def ARM_SMMU_CB_ATS1PR_def ARM_SMMU_CB_S1_TLBIASID_def)
    have f1: "fst ?p1 = 0" using to0 by (simp add: probe_result)
    have tr: "probe_trace 0 ?sr =
        [Writeq (CB 0, ARM_SMMU_CB_ATS1PR) 0x1000, Writel (CB 0, ARM_SMMU_CB_S1_TLBIASID) 1,
         Writel (CB 0, ARM_SMMU_CB_TLBSYNC) 0]"
      using probe_no_halt(1) [where d = domain_attached and env = env_retry and iova = "0x1234"
          and s = ?s0]
        tlb_inv_context_probe [OF 1, where env = env_retry
          and s = "log err_atos_failed_retry (snd ?p1)"] ck t0 8 9 v0
      by (simp add: ats1pr_write_def)
    have vr: "version ?sr = ARM_SMMU_V2" using v0 by (simp add: probe_no_halt)
    have tor: "\<not> probe_timed_out env_retry domain_attached 0x1234 ?sr"
      using tr vr
      by (simp add: probe_timed_out_def Let_def readl_poll_timeout_atomic_def env_retry_def
          ARM_SMMU_CB_def ARM_SMMU_CB_ATS1PR_def ARM_SMMU_CB_S1_TLBIASID_def)
    have par: "probe_par_lo env_retry domain_attached 0x1234 ?sr = 0x80005000"
      "probe_par_hi env_retry domain_attached 0x1234 ?sr = 0"
      by (simp_all add: probe_par_lo_def probe_par_hi_def env_retry_def ARM_SMMU_CB_def
          ARM_SMMU_CB_PAR_LO_def ARM_SMMU_CB_PAR_HI_def)
    have res: "par_result 0x80005000 0 0x1234 = 0x80005234"
      by (simp add: par_result_def CB_PAR_F_def PHYS_MASK_def)
    have 3: "verify_fault_prologue env_retry domain_attached 2 machine_off =
        (fst (verify_fault_prologue env_retry domain_attached 2 machine_off), ?s0)" by simp
    have 4: "?p1 = (0, snd ?p1)" using f1 by (simp add: prod_eq_iff)
    have 5: "?p2 = (fst ?p2, snd ?p2)" by simp
    have 6: "?v = (fst ?v, snd ?v)" by simp
    from verify_fault_probe_retry [OF 1 2 3 4 refl 5 6] 7 8 9 ck to0 tor par res
    show ?thesis by simp
  qed
  from fails retried show ?thesis by simp
qed

section \<open>Properties of suspend and resume\<close>

lemma save_reg_loop:
  assumes "k + length rs \<le> length (regs s)"
  shows "\<exists>RS. list_all2 reads_register rs RS \<and>
           foldl (save_reg env) (k, s) rs =
             (k + length rs,
              s\<lparr>mmio := mmio s @ RS,
                regs := take k (regs s) @ map stored RS @ drop (k + length rs) (regs s)\<rparr>)"
  using assms
proof (induction rs arbitrary: k s)
  case Nil
  then show ?case by simp
next
  case (Cons r rs)
  obtain a wide where r: "r = (a, wide)" by (cases r)
  define e where "e = (if wide then Readq a (fst (readq_relaxed env a s))
                       else Readl a (fst (readl_relaxed env a s)))"
  define s1 where "s1 = s\<lparr>mmio := mmio s @ [e], regs := (regs s)[k := stored e]\<rparr>"
  have step: "save_reg env (k, s) r = (Suc k, s1)"
    by (simp add: r s1_def e_def readq_relaxed_def readl_relaxed_def Let_def)
  have rr: "reads_register r e" by (simp add: r e_def)
  have len: "Suc k + length rs \<le> length (regs s1)" using Cons.prems by (simp add: s1_def)
  from Cons.IH [OF len] obtain RS where
    m: "list_all2 reads_register rs RS"
    and f: "foldl (save_reg env) (Suc k, s1) rs =
             (Suc k + length rs,
              s1\<lparr>mmio := mmio s1 @ RS,
                 regs := take (Suc k) (regs s1) @ map stored RS @
                         drop (Suc k + length rs) (regs s1)\<rparr>)"
    by blast
  have k: "k < length (regs s)" using Cons.prems by simp
  have t: "take (Suc k) (regs s1) = take k (regs s) @ [stored e]"
    using k by (simp add: s1_def take_Suc_conv_app_nth)
  have d: "drop (Suc k + length rs) (regs s1) = drop (Suc k + length rs) (regs s)"
    by (simp add: s1_def)
  have "foldl (save_reg env) (k, s) (r # rs) =
      (k + length (r # rs),
       s\<lparr>mmio := mmio s @ (e # RS),
         regs := take k (regs s) @ map stored (e # RS) @
                 drop (k + length (r # rs)) (regs s)\<rparr>)"
    using step f t d by (simp add: s1_def)
  moreover have "list_all2 reads_register (r # rs) (e # RS)" using rr m by simp
  ultimately show ?case by blast
qed

lemma save_global_loop:
  assumes "k + length rs \<le> length (reg_global s)"
  shows "\<exists>RS. list_all2 reads_register rs RS \<and>
           foldl (save_global env) (k, s) rs =
             (k + length rs,
              s\<lparr>mmio := mmio s @ RS,
                reg_global := take k (reg_global s) @ map stored RS @
                              drop (k + length rs) (reg_global s)\<rparr>)"
  using assms
proof (induction rs arbitrary: k s)
  case Nil
  then show ?case by simp
next
  case (Cons r rs)
  obtain a wide where r: "r = (a, wide)" by (cases r)
  define e where "e = (if wide then Readq a (fst (readq_relaxed env a s))
                       else Readl a (fst (readl_relaxed env a s)))"
  define s1 where "s1 = s\<lparr>mmio := mmio s @ [e], reg_global := (reg_global s)[k := stored e]\<rparr>"
  have step: "save_global env (k, s) r = (Suc k, s1)"
    by (simp add: r s1_def e_def readq_relaxed_def readl_relaxed_def Let_def)
  have rr: "reads_register r e" by (simp add: r e_def)
  have len: "Suc k + length rs \<le> length (reg_global s1)"
    using Cons.prems by (simp add: s1_def)
  from Cons.IH [OF len] obtain RS where
    m: "list_all2 reads_register rs RS"
    and f: "foldl (save_global env) (Suc k, s1) rs =
             (Suc k + length rs,
              s1\<lparr>mmio := mmio s1 @ RS,
                 reg_global := take (Suc k) (reg_global s1) @ map stored RS @
                         drop (Suc k + length rs) (reg_global s1)\<rparr>)"
    by blast
  have k: "k < length (reg_global s)" using Cons.prems by simp
  have t: "take (Suc k) (reg_global s1) = take k (reg_global s) @ [stored e]"
    using k by (simp add: s1_def take_Suc_conv_app_nth)
  have d: "drop (Suc k + length rs) (reg_global s1) = drop (Suc k + length rs) (reg_global s)"
    by (simp add: s1_def)
  have "foldl (save_global env) (k, s) (r # rs) =
      (k + length (r # rs),
       s\<lparr>mmio := mmio s @ (e # RS),
         reg_global := take k (reg_global s) @ map stored (e # RS) @
                 drop (k + length (r # rs)) (reg_global s)\<rparr>)"
    using step f t d by (simp add: s1_def)
  moreover have "list_all2 reads_register (r # rs) (e # RS)" using rr m by simp
  ultimately show ?case by blast
qed


text \<open>Writing back a buffer that holds what the reads stored.\<close>

lemma write_back_read:
  assumes "reads_register r e"
  shows "(if snd r then Writeq (fst r) (stored e) else Writel (fst r) (ucast (stored e))) =
           write_of_read e"
  using assms by (cases r; cases e) (auto simp: ucast_up_ucast_id is_up)

lemma restore_reg_loop:
  assumes "list_all2 reads_register rs RS"
    and "take (length rs) (drop k (regs s)) = map stored RS"
  shows "foldl restore_reg (k, s) rs =
           (k + length rs, s\<lparr>mmio := mmio s @ map write_of_read RS\<rparr>)"
  using assms
proof (induction rs RS arbitrary: k s rule: list_all2_induct)
  case Nil
  then show ?case by simp
next
  case (Cons r rs e RS)
  from Cons.prems have "drop k (regs s) \<noteq> []" by auto
  then have "k < length (regs s)" by simp
  then have "drop k (regs s) = regs s ! k # drop (Suc k) (regs s)"
    by (simp add: Cons_nth_drop_Suc)
  with Cons.prems have nth: "regs s ! k = stored e"
    and rest: "take (length rs) (drop (Suc k) (regs s)) = map stored RS"
    by simp_all
  let ?s1 = "s\<lparr>mmio := mmio s @ [write_of_read e]\<rparr>"
  have step: "restore_reg (k, s) r = (Suc k, ?s1)"
    using write_back_read [OF Cons.hyps(1)] nth
    by (cases r) (auto simp: writeq_relaxed_def writel_relaxed_def)
  have "foldl restore_reg (Suc k, ?s1) rs =
      (Suc k + length rs, ?s1\<lparr>mmio := mmio ?s1 @ map write_of_read RS\<rparr>)"
    by (rule Cons.IH) (simp add: rest)
  with step show ?case by simp
qed


lemma restore_global_loop:
  assumes "list_all2 reads_register rs RS"
    and "take (length rs) (drop k (reg_global s)) = map stored RS"
  shows "foldl restore_global (k, s) rs =
           (k + length rs, s\<lparr>mmio := mmio s @ map write_of_read RS\<rparr>)"
  using assms
proof (induction rs RS arbitrary: k s rule: list_all2_induct)
  case Nil
  then show ?case by simp
next
  case (Cons r rs e RS)
  from Cons.prems have "drop k (reg_global s) \<noteq> []" by auto
  then have "k < length (reg_global s)" by simp
  then have "drop k (reg_global s) = reg_global s ! k # drop (Suc k) (reg_global s)"
    by (simp add: Cons_nth_drop_Suc)
  with Cons.prems have nth: "reg_global s ! k = stored e"
    and rest: "take (length rs) (drop (Suc k) (reg_global s)) = map stored RS"
    by simp_all
  let ?s1 = "s\<lparr>mmio := mmio s @ [write_of_read e]\<rparr>"
  have step: "restore_global (k, s) r = (Suc k, ?s1)"
    using write_back_read [OF Cons.hyps(1)] nth
    by (cases r) (auto simp: writeq_relaxed_def writel_relaxed_def)
  have "foldl restore_global (Suc k, ?s1) rs =
      (Suc k + length rs, ?s1\<lparr>mmio := mmio ?s1 @ map write_of_read RS\<rparr>)"
    by (rule Cons.IH) (simp add: rest)
  with step show ?case by simp
qed

lemma list_all2_reads_length: "list_all2 reads_register rs RS \<Longrightarrow> length RS = length rs"
  by (simp add: list_all2_lengthD)

lemma saved_lengths:
  "length (saved_cb_registers s) = 11 * unat (num_context_banks s)"
  "length (saved_global_registers s) = 2 * unat (num_mapping_groups s) + 1"
  by (simp_all add: saved_cb_registers_def saved_global_registers_def length_concat
      cb_save_registers_def smr_save_registers_def comp_def sum_list_triv)

lemma pm_suspend_snapshot:
  assumes a: "attach_count s \<noteq> 0" and c: "fst (arm_smmu_enable_clocks env s) = 0"
    and fits: "snapshot_fits s"
  shows "\<exists>RS1 RS2 s'. list_all2 reads_register (saved_cb_registers s) RS1 \<and>
           list_all2 reads_register (saved_global_registers s) RS2 \<and>
           arm_smmu_pm_suspend env s = (0, s') \<and>
           mmio s' = mmio s @ RS1 @ RS2 \<and>
           take (length RS1) (regs s') = map stored RS1 \<and>
           take (length RS2) (reg_global s') = map stored RS2 \<and>
           num_context_banks s' = num_context_banks s \<and>
           num_mapping_groups s' = num_mapping_groups s \<and>
           options s' = options s \<and> attach_count s' = attach_count s \<and>
           length (regs s') = length (regs s) \<and> length (reg_global s') = length (reg_global s)"
proof -
  let ?s1 = "snd (arm_smmu_enable_clocks env s)"
  have po: "power_only s ?s1" by auto
  note f1 = power_only_frame [OF po]
  have cb: "saved_cb_registers ?s1 = saved_cb_registers s"
    by (simp add: saved_cb_registers_def f1)
  have l1: "0 + length (saved_cb_registers ?s1) \<le> length (regs ?s1)"
    using fits by (simp add: cb saved_lengths snapshot_fits_def f1 ARM_SMMU_MAX_CBS_def)
  from save_reg_loop [OF l1, of env] obtain RS1 where
    m1: "list_all2 reads_register (saved_cb_registers s) RS1"
    and e1: "foldl (save_reg env) (0, ?s1) (saved_cb_registers ?s1) =
       (0 + length (saved_cb_registers ?s1),
        ?s1\<lparr>mmio := mmio ?s1 @ RS1,
           regs := take 0 (regs ?s1) @ map stored RS1 @
                   drop (0 + length (saved_cb_registers ?s1)) (regs ?s1)\<rparr>)"
    unfolding cb by blast
  define s2 where "s2 = ?s1\<lparr>mmio := mmio s @ RS1,
           regs := map stored RS1 @ drop (length (saved_cb_registers s)) (regs s)\<rparr>"
  have e1': "snd (foldl (save_reg env) (0, ?s1) (saved_cb_registers ?s1)) = s2"
    using e1 by (simp add: s2_def f1 cb)
  have gl: "saved_global_registers s2 = saved_global_registers s"
    by (simp add: saved_global_registers_def s2_def f1 ARM_SMMU_GR0_NS_def)
  have l2: "0 + length (saved_global_registers s2) \<le> length (reg_global s2)"
    using fits
    by (simp add: gl saved_lengths snapshot_fits_def s2_def f1 ARM_SMMU_MAX_SMRS_def)
  from save_global_loop [OF l2, of env] obtain RS2 where
    m2: "list_all2 reads_register (saved_global_registers s) RS2"
    and e2: "foldl (save_global env) (0, s2) (saved_global_registers s2) =
       (0 + length (saved_global_registers s2),
        s2\<lparr>mmio := mmio s2 @ RS2,
           reg_global := take 0 (reg_global s2) @ map stored RS2 @
                   drop (0 + length (saved_global_registers s2)) (reg_global s2)\<rparr>)"
    unfolding gl by blast
  define s3 where "s3 = s2\<lparr>mmio := mmio s @ RS1 @ RS2,
           reg_global := map stored RS2 @ drop (length (saved_global_registers s)) (reg_global s)\<rparr>"
  have e2': "snd (foldl (save_global env) (0, s2) (saved_global_registers s2)) = s3"
    using e2 by (simp add: s3_def gl) (simp add: s2_def f1)
  let ?s' = "arm_smmu_disable_clocks env s3"
  have po3: "power_only s3 ?s'" by auto
  note f3 = power_only_frame [OF po3]
  have r: "arm_smmu_pm_suspend env s = (0, ?s')"
    using a c e1' e2' by (simp add: arm_smmu_pm_suspend_def case_prod_beta Let_def)
  have n1: "length RS1 = length (saved_cb_registers s)"
    and n2: "length RS2 = length (saved_global_registers s)"
    using m1 m2 by (simp_all add: list_all2_lengthD)
  have len1: "length (saved_cb_registers s) \<le> length (regs s)"
    using l1 by (simp add: cb f1)
  have len2: "length (saved_global_registers s) \<le> length (reg_global s)"
    using l2 by (simp add: gl) (simp add: s2_def f1)
  have "mmio ?s' = mmio s @ RS1 @ RS2" by (simp add: f3 s3_def)
  moreover have "take (length RS1) (regs ?s') = map stored RS1"
    by (simp add: f3 s3_def s2_def)
  moreover have "take (length RS2) (reg_global ?s') = map stored RS2"
    by (simp add: f3 s3_def)
  moreover have "num_context_banks ?s' = num_context_banks s"
    "num_mapping_groups ?s' = num_mapping_groups s" "options ?s' = options s"
    "attach_count ?s' = attach_count s"
    by (simp_all add: f3 s3_def s2_def f1)
  moreover have "length (regs ?s') = length (regs s)"
    using len1 by (simp add: f3 s3_def s2_def n1)
  moreover have "length (reg_global ?s') = length (reg_global s)"
    using len2 by (simp add: f3 s3_def n2)
  ultimately show ?thesis using m1 m2 r by blast
qed


lemma tlb_sync_poll_mmio:
  "\<exists>sync. mmio (tlb_sync_poll env k s) = mmio s @ sync \<and> (\<forall>e\<in>set sync. is_status_read e)"
proof (induction k arbitrary: s)
  case 0
  show ?case by simp
next
  case (Suc k)
  let ?e = "Readl (GR0, ARM_SMMU_GR0_sTLBGSTATUS)
              (fst (readl_relaxed env (GR0, ARM_SMMU_GR0_sTLBGSTATUS) s))"
  let ?s1 = "snd (readl_relaxed env (GR0, ARM_SMMU_GR0_sTLBGSTATUS) s)"
  have m1: "mmio ?s1 = mmio s @ [?e]" by (simp add: readl_relaxed_def Let_def)
  from Suc.IH [of ?s1] obtain sync where
    "mmio (tlb_sync_poll env k ?s1) = mmio ?s1 @ sync" "\<forall>e\<in>set sync. is_status_read e"
    by blast
  then have A: "\<exists>sy. mmio (tlb_sync_poll env k ?s1) = mmio s @ sy \<and>
      (\<forall>e\<in>set sy. is_status_read e)"
    using m1 by (intro exI [of _ "?e # sync"]) simp
  have B: "\<exists>sy. mmio (log err_tlb_sync_timed_out ?s1) = mmio s @ sy \<and>
      (\<forall>e\<in>set sy. is_status_read e)"
    using m1 by (intro exI [of _ "[?e]"]) (simp add: log_def)
  have C: "\<exists>sy. mmio ?s1 = mmio s @ sy \<and> (\<forall>e\<in>set sy. is_status_read e)"
    using m1 by (intro exI [of _ "[?e]"]) simp
  show ?case
    using A B C by (simp add: case_prod_beta)
qed

lemma pm_resume_writes:
  assumes a: "attach_count t \<noteq> 0" and c: "fst (arm_smmu_enable_clocks env t) = 0"
    and m1: "list_all2 reads_register (saved_cb_registers t) RS1"
    and m2: "list_all2 reads_register (saved_global_registers t) RS2"
    and b1: "take (length RS1) (regs t) = map stored RS1"
    and b2: "take (length RS2) (reg_global t) = map stored RS2"
  shows "\<exists>sync t'. arm_smmu_pm_resume env t = (0, t') \<and>
           mmio t' = mmio t @ map write_of_read (RS1 @ RS2) @ tlb_invalidate_all_sync @ sync \<and>
           (\<forall>e\<in>set sync. is_status_read e)"
proof -
  let ?s1 = "snd (arm_smmu_enable_clocks env t)"
  have po: "power_only t ?s1" by auto
  note f1 = power_only_frame [OF po]
  have cb: "saved_cb_registers ?s1 = saved_cb_registers t"
    by (simp add: saved_cb_registers_def f1)
  have n1: "length RS1 = length (saved_cb_registers t)"
    and n2: "length RS2 = length (saved_global_registers t)"
    using m1 m2 by (simp_all add: list_all2_lengthD)
  define s2 where "s2 = ?s1\<lparr>mmio := mmio ?s1 @ map write_of_read RS1\<rparr>"
  have e1: "snd (foldl restore_reg (0, ?s1) (saved_cb_registers ?s1)) = s2"
    unfolding cb s2_def
    using restore_reg_loop [OF m1, of 0 ?s1] b1 by (simp add: f1 n1)
  have gl: "saved_global_registers s2 = saved_global_registers t"
    by (simp add: saved_global_registers_def s2_def f1 ARM_SMMU_GR0_NS_def)
  define s3 where "s3 = s2\<lparr>mmio := mmio s2 @ map write_of_read RS2\<rparr>"
  have e2: "snd (foldl restore_global (0, s2) (saved_global_registers s2)) = s3"
    unfolding gl s3_def
    using restore_global_loop [OF m2, of 0 s2] b2 by (simp add: s2_def f1 n2)
  define s5 where "s5 = writel_relaxed 0 (GR0, ARM_SMMU_GR0_sTLBGSYNC)
     (writel_relaxed 0 (GR0, ARM_SMMU_GR0_TLBIALLNSNH)
        (writel_relaxed 0 (GR0, ARM_SMMU_GR0_TLBIALLH) s3))"
  have m5: "mmio s5 = mmio t @ map write_of_read (RS1 @ RS2) @ tlb_invalidate_all_sync"
    by (simp add: s5_def s3_def s2_def f1 writel_relaxed_def tlb_invalidate_all_sync_def)
  from tlb_sync_poll_mmio [of env TLB_LOOP_TIMEOUT s5] obtain sync where
    sy: "mmio (tlb_sync_poll env TLB_LOOP_TIMEOUT s5) = mmio s5 @ sync"
      "\<forall>e\<in>set sync. is_status_read e"
    by blast
  let ?t' = "arm_smmu_disable_clocks env (tlb_sync_poll env TLB_LOOP_TIMEOUT s5)"
  have po3: "power_only (tlb_sync_poll env TLB_LOOP_TIMEOUT s5) ?t'" by auto
  note f3 = power_only_frame [OF po3]
  have r: "arm_smmu_pm_resume env t = (0, ?t')"
    using a c e1 e2
    by (simp add: arm_smmu_pm_resume_def case_prod_beta Let_def arm_smmu_tlb_sync_global_def
        s5_def)
  have "mmio ?t' = mmio t @ map write_of_read (RS1 @ RS2) @ tlb_invalidate_all_sync @ sync"
    using sy m5 by (simp add: f3)
  with r sy(2) show ?thesis by blast
qed


lemma replay_untouched:
  "\<forall>e\<in>set X. \<not> writes_register a e \<Longrightarrow> foldl replay f X a = f a"
proof (induction X arbitrary: f)
  case Nil
  show ?case by simp
next
  case (Cons e X)
  then have "foldl replay (replay f e) X a = replay f e a" by simp
  moreover have "replay f e a = f a" using Cons.prems by (cases e) auto
  ultimately show ?case by simp
qed

lemma write_back_elsewhere:
  "list_all2 reads_register rs RS \<Longrightarrow> a \<notin> fst ` set rs \<Longrightarrow>
   \<forall>e\<in>set (map write_of_read RS). \<not> writes_register a e"
proof (induction rs RS rule: list_all2_induct)
  case Nil
  show ?case by simp
next
  case (Cons r rs e RS)
  have "\<not> writes_register a (write_of_read e)"
    using Cons.hyps(1) Cons.prems by (cases r; cases e) auto
  with Cons show ?case by simp
qed

lemma replay_write_back:
  assumes "list_all2 reads_register rs RS" "distinct (map fst rs)" "i < length rs"
    "\<forall>e\<in>set X. \<not> writes_register (fst (rs ! i)) e"
  shows "foldl replay f (map write_of_read RS @ X) (fst (rs ! i)) = stored (RS ! i)"
  using assms
proof (induction rs RS arbitrary: f i rule: list_all2_induct)
  case Nil
  then show ?case by simp
next
  case (Cons r rs e RS)
  show ?case
  proof (cases i)
    case 0
    have "fst r \<notin> fst ` set rs" using Cons.prems(1) by auto
    from write_back_elsewhere [OF Cons.hyps(2) this] Cons.prems(3) 0
    have "\<forall>x\<in>set (map write_of_read RS @ X). \<not> writes_register (fst r) x" by auto
    then have "foldl replay (replay f (write_of_read e)) (map write_of_read RS @ X) (fst r) =
        replay f (write_of_read e) (fst r)"
      by (rule replay_untouched)
    moreover have "replay f (write_of_read e) (fst r) = stored e"
      using Cons.hyps(1) by (cases r; cases e) auto
    ultimately show ?thesis using 0 by simp
  next
    case (Suc j)
    with Cons.prems have "distinct (map fst rs)" "j < length rs"
      "\<forall>e\<in>set X. \<not> writes_register (fst (rs ! j)) e"
      by auto
    from Cons.IH [OF this, of "replay f (write_of_read e)"] Suc show ?thesis by simp
  qed
qed

lemma cb_save_addresses:
  "map fst (cb_save_registers j) =
     [(CB j, 0), (CB j, 4), (CB j, 16), (CB j, 32), (CB j, 40), (CB j, 48), (CB j, 52),
      (CB j, 56), (CB j, 60), (GR1, 2048 + 4 * j), (GR1, 4 * j)]"
  by (simp add: cb_save_registers_def ARM_SMMU_CB_SCTLR_def ARM_SMMU_CB_ACTLR_def
      ARM_SMMU_CB_TTBCR2_def ARM_SMMU_CB_TTBR0_def ARM_SMMU_CB_TTBR1_def ARM_SMMU_CB_TTBCR_def
      ARM_SMMU_CB_CONTEXTIDR_def ARM_SMMU_CB_S1_MAIR0_def ARM_SMMU_CB_S1_MAIR1_def
      ARM_SMMU_GR1_CBA2R_def ARM_SMMU_GR1_CBAR_def)

lemma cb_addresses_distinct:
  "n \<le> 128 \<Longrightarrow> distinct (concat (map (\<lambda>j. map fst (cb_save_registers j)) [0..<n]))"
proof (induction n)
  case 0
  show ?case by simp
next
  case (Suc n)
  then have IH: "distinct (concat (map (\<lambda>j. map fst (cb_save_registers j)) [0..<n]))" by simp
  have d: "distinct (map fst (cb_save_registers n))" by (simp add: cb_save_addresses)
  have "set (concat (map (\<lambda>j. map fst (cb_save_registers j)) [0..<n])) \<inter>
      set (map fst (cb_save_registers n)) = {}"
    using Suc.prems unfolding cb_save_addresses by auto
  with IH d show ?case by simp
qed

lemma smr_save_addresses:
  "map fst (smr_save_registers j) = [(GR0, 3072 + 4 * j), (GR0, 2048 + 4 * j)]"
  by (simp add: smr_save_registers_def ARM_SMMU_GR0_S2CR_def ARM_SMMU_GR0_SMR_def)

lemma smr_addresses_distinct:
  "n \<le> 128 \<Longrightarrow> distinct (concat (map (\<lambda>j. map fst (smr_save_registers j)) [0..<n]))"
proof (induction n)
  case 0
  show ?case by simp
next
  case (Suc n)
  then have IH: "distinct (concat (map (\<lambda>j. map fst (smr_save_registers j)) [0..<n]))" by simp
  have d: "distinct (map fst (smr_save_registers n))" by (simp add: smr_save_addresses)
  have "set (concat (map (\<lambda>j. map fst (smr_save_registers j)) [0..<n])) \<inter>
      set (map fst (smr_save_registers n)) = {}"
    using Suc.prems unfolding smr_save_addresses by auto
  with IH d show ?case by simp
qed

lemma saved_addresses:
  assumes "a \<in> fst ` set (saved_registers s)"
  shows "(\<exists>j off. a = (CB j, off)) \<or> (\<exists>off. a = (GR1, off)) \<or>
         (\<exists>off. a = (GR0, off) \<and> (2048 \<le> off \<or> off = 0 \<or> off = 1024))"
  using assms
  by (auto simp: saved_registers_def saved_cb_registers_def saved_global_registers_def
      cb_save_registers_def smr_save_registers_def ARM_SMMU_GR0_NS_def ARM_SMMU_GR0_sCR0_def
      ARM_SMMU_GR0_S2CR_def ARM_SMMU_GR0_SMR_def split: if_splits)

lemma saved_registers_distinct:
  assumes "snapshot_fits s"
  shows "distinct (map fst (saved_registers s))"
proof -
  have n: "unat (num_context_banks s) \<le> 128" "unat (num_mapping_groups s) \<le> 128"
    using assms by (simp_all add: snapshot_fits_def ARM_SMMU_MAX_CBS_def ARM_SMMU_MAX_SMRS_def)
  have 1: "distinct (map fst (saved_cb_registers s))"
    using cb_addresses_distinct [OF n(1)]
    by (simp add: saved_cb_registers_def map_concat comp_def)
  have 2: "distinct (map fst (concat (map smr_save_registers [0..<unat (num_mapping_groups s)])))"
    using smr_addresses_distinct [OF n(2)] by (simp add: map_concat comp_def)
  have 3: "fst (ARM_SMMU_GR0_NS s ARM_SMMU_GR0_sCR0, False) \<notin>
      set (map fst (concat (map smr_save_registers [0..<unat (num_mapping_groups s)])))"
    by (auto simp: smr_save_registers_def ARM_SMMU_GR0_NS_def ARM_SMMU_GR0_sCR0_def
        ARM_SMMU_GR0_S2CR_def ARM_SMMU_GR0_SMR_def)
  have 4: "distinct (map fst (saved_global_registers s))"
    using 2 3 by (simp add: saved_global_registers_def)
  have 5: "set (map fst (saved_cb_registers s)) \<inter> set (map fst (saved_global_registers s)) = {}"
    by (auto simp: saved_cb_registers_def saved_global_registers_def
        cb_save_registers_def smr_save_registers_def ARM_SMMU_GR0_NS_def)
  show ?thesis using 1 4 5 by (simp add: saved_registers_def)
qed


lemma tlb_writes_miss_saved:
  assumes "a \<in> fst ` set (saved_registers s)" "\<forall>e\<in>set sync. is_status_read e"
  shows "\<forall>e\<in>set (tlb_invalidate_all_sync @ sync). \<not> writes_register a e"
proof -
  have "\<And>e. is_status_read e \<Longrightarrow> \<not> writes_register a e"
    by (erule is_status_read.elims) simp
  moreover have "\<forall>e\<in>set tlb_invalidate_all_sync. \<not> writes_register a e"
    using saved_addresses [OF assms(1)]
    by (auto simp: tlb_invalidate_all_sync_def ARM_SMMU_GR0_TLBIALLH_def
        ARM_SMMU_GR0_TLBIALLNSNH_def ARM_SMMU_GR0_sTLBGSYNC_def)
  ultimately show ?thesis using assms(2) by auto
qed

lemma pm_clock_failure:
  assumes "attach_count s \<noteq> 0" "fst (arm_smmu_enable_clocks env s) \<noteq> 0"
  shows "fst (arm_smmu_pm_suspend env s) = - errno_code EINVAL"
    "mmio (snd (arm_smmu_pm_suspend env s)) = mmio s"
    "regs (snd (arm_smmu_pm_suspend env s)) = regs s"
    "reg_global (snd (arm_smmu_pm_suspend env s)) = reg_global s"
    "fst (arm_smmu_pm_resume env s) = - errno_code EINVAL"
    "mmio (snd (arm_smmu_pm_resume env s)) = mmio s"
  using assms
  by (simp_all add: arm_smmu_pm_suspend_def arm_smmu_pm_resume_def case_prod_beta log_def)

lemma clk_fail_enable_clocks:
  "fst (arm_smmu_enable_clocks env_clk_fail machine_attached) = - 5"
  by (simp add: arm_smmu_enable_clocks_def arm_smmu_enable_regulators_def
      arm_smmu_enable_clocks_atomic_def arm_smmu_request_bus_def arm_smmu_prepare_clocks_def
      prepare_loop.simps enable_loop.simps call_def env_clk_fail_def machine_attached_def
      machine_off_def case_prod_beta Let_def)

lemma machine_attached_fits: "snapshot_fits machine_attached"
  by (simp add: snapshot_fits_def machine_attached_def machine_off_def ARM_SMMU_MAX_CBS_def
      ARM_SMMU_MAX_SMRS_def)

text \<open>Claim C8, as amended. With attach count zero, suspend and resume return 0 and leave
  the machine as it is. With a non-zero attach count they first enable the clocks: if that
  fails they return \<open>-EINVAL\<close> without any register access (and suspend leaves the buffers
  alone). If it succeeds and the snapshot fits the buffers, suspend returns 0 after
  reading exactly the registers of \<open>saved_registers\<close> in that order: per context bank the
  control, auxiliary control, extended translation control, the two 64-bit translation
  table bases, translation control, context ID, the two memory attribute registers and the
  two context-bank attribute registers; then per mapping group the stream-to-context and
  stream-match registers; then the global control register. A later resume on a machine
  holding these buffers returns 0 after writing the values read back in the same order,
  followed by the two global TLB invalidate-all writes, the sync write and reads of the
  sync status only. Replaying the accesses of the resume on any register file leaves in
  every saved register the value that suspend read from it.\<close>

theorem suspend_resume_round_trip:
  "(attach_count s = 0 \<longrightarrow>
      arm_smmu_pm_suspend env s = (0, s) \<and> arm_smmu_pm_resume env s = (0, s)) \<and>
   (attach_count s \<noteq> 0 \<and> fst (arm_smmu_enable_clocks env s) \<noteq> 0 \<longrightarrow>
      fst (arm_smmu_pm_suspend env s) = - errno_code EINVAL \<and>
      mmio (snd (arm_smmu_pm_suspend env s)) = mmio s \<and>
      regs (snd (arm_smmu_pm_suspend env s)) = regs s \<and>
      reg_global (snd (arm_smmu_pm_suspend env s)) = reg_global s \<and>
      fst (arm_smmu_pm_resume env s) = - errno_code EINVAL \<and>
      mmio (snd (arm_smmu_pm_resume env s)) = mmio s) \<and>
   (attach_count s \<noteq> 0 \<and> fst (arm_smmu_enable_clocks env s) = 0 \<and> snapshot_fits s \<longrightarrow>
      (\<exists>RS s1.
         arm_smmu_pm_suspend env s = (0, s1) \<and>
         mmio s1 = mmio s @ RS \<and>
         list_all2 reads_register (saved_registers s) RS \<and>
         (\<forall>t env'.
            regs t = regs s1 \<and> reg_global t = reg_global s1 \<and>
            num_context_banks t = num_context_banks s \<and>
            num_mapping_groups t = num_mapping_groups s \<and> options t = options s \<and>
            attach_count t \<noteq> 0 \<and> fst (arm_smmu_enable_clocks env' t) = 0 \<longrightarrow>
            (\<exists>sync t1.
               arm_smmu_pm_resume env' t = (0, t1) \<and>
               mmio t1 = mmio t @ map write_of_read RS @ tlb_invalidate_all_sync @ sync \<and>
               (\<forall>e\<in>set sync. is_status_read e) \<and>
               (\<forall>f i. i < length RS \<longrightarrow>
                  foldl replay f (map write_of_read RS @ tlb_invalidate_all_sync @ sync)
                    (fst (saved_registers s ! i)) = stored (RS ! i))))))"
proof (intro conjI impI)
  assume "attach_count s = 0"
  then show "arm_smmu_pm_suspend env s = (0, s)" "arm_smmu_pm_resume env s = (0, s)"
    by (simp_all add: arm_smmu_pm_suspend_def arm_smmu_pm_resume_def)
next
  assume h: "attach_count s \<noteq> 0 \<and> fst (arm_smmu_enable_clocks env s) \<noteq> 0"
  then have a: "attach_count s \<noteq> 0" and c: "fst (arm_smmu_enable_clocks env s) \<noteq> 0"
    by simp_all
  show "fst (arm_smmu_pm_suspend env s) = - errno_code EINVAL"
    "mmio (snd (arm_smmu_pm_suspend env s)) = mmio s"
    "regs (snd (arm_smmu_pm_suspend env s)) = regs s"
    "reg_global (snd (arm_smmu_pm_suspend env s)) = reg_global s"
    "fst (arm_smmu_pm_resume env s) = - errno_code EINVAL"
    "mmio (snd (arm_smmu_pm_resume env s)) = mmio s"
    by (rule pm_clock_failure [OF a c])+
next
  assume h: "attach_count s \<noteq> 0 \<and> fst (arm_smmu_enable_clocks env s) = 0 \<and> snapshot_fits s"
  then have a: "attach_count s \<noteq> 0" and c: "fst (arm_smmu_enable_clocks env s) = 0"
    and fits: "snapshot_fits s"
    by simp_all
  from pm_suspend_snapshot [OF a c fits] obtain RS1 RS2 s1 where
    m1: "list_all2 reads_register (saved_cb_registers s) RS1"
    and m2: "list_all2 reads_register (saved_global_registers s) RS2"
    and r: "arm_smmu_pm_suspend env s = (0, s1)"
    and mm: "mmio s1 = mmio s @ RS1 @ RS2"
    and b1: "take (length RS1) (regs s1) = map stored RS1"
    and b2: "take (length RS2) (reg_global s1) = map stored RS2"
    by blast
  let ?RS = "RS1 @ RS2"
  have m: "list_all2 reads_register (saved_registers s) ?RS"
    using m1 m2 by (simp add: saved_registers_def list_all2_appendI)
  have len: "length ?RS = length (saved_registers s)"
    using m by (simp add: list_all2_lengthD)
  have d: "distinct (map fst (saved_registers s))"
    by (rule saved_registers_distinct [OF fits])
  have "\<exists>sync t1.
               arm_smmu_pm_resume env' t = (0, t1) \<and>
               mmio t1 = mmio t @ map write_of_read ?RS @ tlb_invalidate_all_sync @ sync \<and>
               (\<forall>e\<in>set sync. is_status_read e) \<and>
               (\<forall>f i. i < length ?RS \<longrightarrow>
                  foldl replay f (map write_of_read ?RS @ tlb_invalidate_all_sync @ sync)
                    (fst (saved_registers s ! i)) = stored (?RS ! i))"
    if t: "regs t = regs s1 \<and> reg_global t = reg_global s1 \<and>
            num_context_banks t = num_context_banks s \<and>
            num_mapping_groups t = num_mapping_groups s \<and> options t = options s \<and>
            attach_count t \<noteq> 0 \<and> fst (arm_smmu_enable_clocks env' t) = 0"
    for t env'
  proof -
    have cb: "saved_cb_registers t = saved_cb_registers s"
      using t by (simp add: saved_cb_registers_def)
    have gl: "saved_global_registers t = saved_global_registers s"
      using t by (simp add: saved_global_registers_def ARM_SMMU_GR0_NS_def)
    from pm_resume_writes [of t env' RS1 RS2] t m1 m2 b1 b2 cb gl
    obtain sync t1 where
      w: "arm_smmu_pm_resume env' t = (0, t1)"
        "mmio t1 = mmio t @ map write_of_read ?RS @ tlb_invalidate_all_sync @ sync"
        "\<forall>e\<in>set sync. is_status_read e"
      by auto
    have "foldl replay f (map write_of_read ?RS @ tlb_invalidate_all_sync @ sync)
                    (fst (saved_registers s ! i)) = stored (?RS ! i)"
      if i: "i < length ?RS" for f i
    proof -
      have il: "i < length (saved_registers s)" using i len by simp
      then have "fst (saved_registers s ! i) \<in> fst ` set (saved_registers s)"
        by (metis image_eqI nth_mem)
      from tlb_writes_miss_saved [OF this w(3)]
      show ?thesis by (rule replay_write_back [OF m d il])
    qed
    with w show ?thesis by blast
  qed
  with r mm m show "\<exists>RS s1.
         arm_smmu_pm_suspend env s = (0, s1) \<and>
         mmio s1 = mmio s @ RS \<and>
         list_all2 reads_register (saved_registers s) RS \<and>
         (\<forall>t env'.
            regs t = regs s1 \<and> reg_global t = reg_global s1 \<and>
            num_context_banks t = num_context_banks s \<and>
            num_mapping_groups t = num_mapping_groups s \<and> options t = options s \<and>
            attach_count t \<noteq> 0 \<and> fst (arm_smmu_enable_clocks env' t) = 0 \<longrightarrow>
            (\<exists>sync t1.
               arm_smmu_pm_resume env' t = (0, t1) \<and>
               mmio t1 = mmio t @ map write_of_read RS @ tlb_invalidate_all_sync @ sync \<and>
               (\<forall>e\<in>set sync. is_status_read e) \<and>
               (\<forall>f i. i < length RS \<longrightarrow>
                  foldl replay f (map write_of_read RS @ tlb_invalidate_all_sync @ sync)
                    (fst (saved_registers s ! i)) = stored (RS ! i))))"
    by (intro exI [of _ ?RS] exI [of _ s1]) simp
qed

theorem suspend_resume_round_trip_counterexample:
  "attach_count machine_attached = 1 \<and>
   fst (arm_smmu_pm_suspend env_clk_fail machine_attached) = - 22 \<and>
   mmio (snd (arm_smmu_pm_suspend env_clk_fail machine_attached)) = [] \<and>
   regs (snd (arm_smmu_pm_suspend env_clk_fail machine_attached)) = regs machine_attached"
proof -
  have a: "attach_count machine_attached \<noteq> 0"
    by (simp add: machine_attached_def)
  have c: "fst (arm_smmu_enable_clocks env_clk_fail machine_attached) \<noteq> 0"
    by (simp add: clk_fail_enable_clocks)
  from pm_clock_failure [OF a c] show ?thesis
    by (simp add: machine_attached_def machine_off_def)
qed

theorem suspend_resume_round_trip_witness:
  "arm_smmu_pm_suspend env_ok machine_off = (0, machine_off) \<and>
   arm_smmu_pm_resume env_ok machine_off = (0, machine_off) \<and>
   fst (arm_smmu_pm_resume env_clk_fail machine_attached) = - 22 \<and>
   (\<exists>RS s1. arm_smmu_pm_suspend env_ok machine_attached = (0, s1) \<and>
      mmio s1 = RS \<and> list_all2 reads_register (saved_registers machine_attached) RS \<and>
      (\<exists>sync t1. arm_smmu_pm_resume env_ok s1 = (0, t1) \<and>
         mmio t1 = RS @ map write_of_read RS @ tlb_invalidate_all_sync @ sync))"
proof -
  have 1: "attach_count machine_off = 0" by (simp add: machine_off_def)
  have at: "attach_count machine_attached \<noteq> 0" by (simp add: machine_attached_def)
  have 2: "attach_count machine_attached \<noteq> 0 \<and>
      fst (arm_smmu_enable_clocks env_clk_fail machine_attached) \<noteq> 0"
    using at by (simp add: clk_fail_enable_clocks)
  have 3: "attach_count machine_attached \<noteq> 0 \<and>
      fst (arm_smmu_enable_clocks env_ok machine_attached) = 0 \<and>
      snapshot_fits machine_attached"
    using at by (simp add: machine_attached_fits platform_ok_env_ok)
  from suspend_resume_round_trip [of machine_attached env_ok] 3 obtain RS s1 where
    r: "arm_smmu_pm_suspend env_ok machine_attached = (0, s1)"
      "mmio s1 = mmio machine_attached @ RS"
      "list_all2 reads_register (saved_registers machine_attached) RS"
    and t: "\<forall>t env'.
            regs t = regs s1 \<and> reg_global t = reg_global s1 \<and>
            num_context_banks t = num_context_banks machine_attached \<and>
            num_mapping_groups t = num_mapping_groups machine_attached \<and>
            options t = options machine_attached \<and>
            attach_count t \<noteq> 0 \<and> fst (arm_smmu_enable_clocks env' t) = 0 \<longrightarrow>
            (\<exists>sync t1.
               arm_smmu_pm_resume env' t = (0, t1) \<and>
               mmio t1 = mmio t @ map write_of_read RS @ tlb_invalidate_all_sync @ sync \<and>
               (\<forall>e\<in>set sync. is_status_read e) \<and>
               (\<forall>f i. i < length RS \<longrightarrow>
                  foldl replay f (map write_of_read RS @ tlb_invalidate_all_sync @ sync)
                    (fst (saved_registers machine_attached ! i)) = stored (RS ! i)))"
    by blast
  have s1: "s1 = snd (arm_smmu_pm_suspend env_ok machine_attached)" using r(1) by simp
  have fr: "num_context_banks s1 = num_context_banks machine_attached"
    "num_mapping_groups s1 = num_mapping_groups machine_attached"
    "options s1 = options machine_attached" "attach_count s1 \<noteq> 0"
    using pm_suspend_snapshot [of machine_attached env_ok] 3 r(1) by auto
  have "fst (arm_smmu_enable_clocks env_ok s1) = 0" by (simp add: platform_ok_env_ok)
  with t [rule_format, of s1 env_ok] fr obtain sync t1 where
    "arm_smmu_pm_resume env_ok s1 = (0, t1)"
    "mmio t1 = mmio s1 @ map write_of_read RS @ tlb_invalidate_all_sync @ sync"
    by auto
  moreover have "mmio machine_attached = []" by (simp add: machine_attached_def machine_off_def)
  ultimately show ?thesis
    using suspend_resume_round_trip [of machine_off env_ok] 1
      suspend_resume_round_trip [of machine_attached env_clk_fail] 2 r
    by auto
qed


section \<open>Properties of the secure ownership tracker\<close>

lemma assign_loop_unit:
  "fst (assign_loop env d es s) = 0 \<Longrightarrow>
     snd (assign_loop env d es s) = s\<lparr>calls := calls s @ map (assign_call d) es\<rparr>"
proof (induction es arbitrary: s)
  case Nil
  then show ?case by simp
next
  case (Cons e es)
  let ?c = "hyp_assign_phys (virt_addr e) [VMID_HLOS] [VMID_HLOS, sint (secure_vmid d)]
              [PERM_READ + PERM_WRITE, PERM_READ]"
  obtain r s1 where c: "call env ?c s = (r, s1)" by (cases "call env ?c s")
  from Cons.prems c have r: "r = 0" by (auto split: if_splits)
  from c r have s1: "s1 = s\<lparr>calls := calls s @ [assign_call d e]\<rparr>"
    by (auto simp: call_def Let_def assign_call_def)
  from Cons.prems c r have "fst (assign_loop env d es s1) = 0" by simp
  from Cons.IH [OF this] c r s1 show ?case by simp
qed

lemma domain_grows_refl: "domain_grows d d"
  by (simp add: domain_grows_def)

lemma domain_grows_trans: "domain_grows a b \<Longrightarrow> domain_grows b c \<Longrightarrow> domain_grows a c"
  by (auto simp: domain_grows_def)

lemma prepare_grows:
  "arm_smmu_prepare_pgtable env a d s = Inr (d', s') \<Longrightarrow> domain_grows d d'"
  by (auto simp: arm_smmu_prepare_pgtable_def domain_grows_def split: if_splits prod.splits)

lemma unprepare_grows:
  "arm_smmu_unprepare_pgtable env d a sz s = Inr (d', s') \<Longrightarrow> domain_grows d d'"
  by (auto simp: arm_smmu_unprepare_pgtable_def domain_grows_def split: if_splits prod.splits)

lemma pool_remove_grows:
  "arm_smmu_secure_pool_remove d sz = (a, d') \<Longrightarrow> domain_grows d d'"
  by (auto simp: arm_smmu_secure_pool_remove_def domain_grows_def split: prod.splits)

lemma pool_add_grows:
  "arm_smmu_secure_pool_add env d a sz s = (r, d', s') \<Longrightarrow> domain_grows d d'"
  by (auto simp: arm_smmu_secure_pool_add_def domain_grows_def split: if_splits prod.splits)

lemma alloc_pages_grows:
  "arm_smmu_alloc_pages_exact env d sz s = Inr (p, d', s') \<Longrightarrow> domain_grows d d'"
  unfolding arm_smmu_alloc_pages_exact_def
  by (auto split: if_splits prod.splits sum.splits
      intro: domain_grows_refl domain_grows_trans pool_remove_grows prepare_grows)

lemma free_pages_grows:
  "arm_smmu_free_pages_exact env d virt sz s = Inr (d', s') \<Longrightarrow> domain_grows d d'"
  unfolding arm_smmu_free_pages_exact_def
  by (auto split: if_splits prod.splits sum.splits
      intro: domain_grows_refl domain_grows_trans pool_add_grows unprepare_grows)

lemma run_pgtable_grows:
  "run_pgtable env t d s = Inr (r, d', s') \<Longrightarrow> domain_grows d d'"
proof (induction t arbitrary: d s)
  case (Done x)
  then show ?case by (simp add: domain_grows_refl)
next
  case (Alloc_pages sz k)
  from Alloc_pages.prems obtain p d1 s1 where
    a: "arm_smmu_alloc_pages_exact env d sz s = Inr (p, d1, s1)" and
    b: "run_pgtable env (k p) d1 s1 = Inr (r, d', s')"
    by (auto split: sum.splits prod.splits)
  have "domain_grows d1 d'" by (rule Alloc_pages.IH [OF rangeI b])
  with alloc_pages_grows [OF a] show ?case by (rule domain_grows_trans)
next
  case (Free_pages virt sz k)
  from Free_pages.prems obtain d1 s1 where
    a: "arm_smmu_free_pages_exact env d virt sz s = Inr (d1, s1)" and
    b: "run_pgtable env k d1 s1 = Inr (r, d', s')"
    by (auto split: sum.splits prod.splits)
  have "domain_grows d1 d'" by (rule Free_pages.IH [OF b])
  with free_pages_grows [OF a] show ?case by (rule domain_grows_trans)
next
  case (Tlb_flush_all k)
  then show ?case by auto
next
  case (Tlb_add_flush iova sz leaf k)
  then show ?case by (auto split: sum.splits)
next
  case (Tlb_sync k)
  then show ?case by auto
qed

lemma prim_hyp_calls [simp]:
  "hyp_calls (log m s) = hyp_calls s"
  "hyp_calls (call_void c s) = hyp_calls s @ filter is_hyp_assign [(c, 0)]"
  "hyp_calls (snd (call env c s)) = hyp_calls s @ filter is_hyp_assign [(c, fst (call env c s))]"
  "hyp_calls (snd (readl_poll_timeout_atomic env a s)) = hyp_calls s"
  "hyp_calls (snd (readl_relaxed env a s)) = hyp_calls s"
  "hyp_calls (writel_relaxed v a s) = hyp_calls s"
  "hyp_calls (writeq_relaxed w a s) = hyp_calls s"
  by (simp_all add: hyp_calls_def log_def call_void_def call_def readl_poll_timeout_atomic_def
      readl_relaxed_def writel_relaxed_def writeq_relaxed_def Let_def)

lemma tlb_sync_poll_hyp [simp]: "hyp_calls (tlb_sync_poll env k s) = hyp_calls s"
  by (induction k arbitrary: s; simp add: case_prod_beta)

lemma tlb_hyp [simp]:
  "hyp_calls (arm_smmu_tlb_sync_global env s) = hyp_calls s"
  "hyp_calls (arm_smmu_tlb_sync_cb env m s) = hyp_calls s"
  "hyp_calls (arm_smmu_tlb_inv_context env d s) = hyp_calls s"
  "hyp_calls (arm_smmu_tlb_sync env d s) = hyp_calls s"
  by (simp_all add: arm_smmu_tlb_sync_global_def arm_smmu_tlb_sync_cb_def
      arm_smmu_tlb_inv_context_def arm_smmu_tlb_sync_def case_prod_beta)

lemma tlb_inv_range_hyp:
  "arm_smmu_tlb_inv_range_nosync iova sz leaf d s = Inr s' \<Longrightarrow> hyp_calls s' = hyp_calls s"
  by (auto simp: arm_smmu_tlb_inv_range_nosync_def Let_def split: if_splits)

lemma alloc_pages_hyp:
  "arm_smmu_alloc_pages_exact env d sz s = Inr (p, d', s') \<Longrightarrow> hyp_calls s' = hyp_calls s"
  unfolding arm_smmu_alloc_pages_exact_def arm_smmu_prepare_pgtable_def
    arm_smmu_secure_pool_remove_def
  by (auto simp: call_def Let_def hyp_calls_def split: if_splits prod.splits sum.splits)

lemma free_pages_hyp:
  "arm_smmu_free_pages_exact env d virt sz s = Inr (d', s') \<Longrightarrow> hyp_calls s' = hyp_calls s"
  unfolding arm_smmu_free_pages_exact_def arm_smmu_unprepare_pgtable_def
    arm_smmu_secure_pool_add_def
  by (auto simp: call_def call_void_def Let_def hyp_calls_def split: if_splits prod.splits)

lemma run_pgtable_hyp:
  "run_pgtable env t d s = Inr (r, d', s') \<Longrightarrow> hyp_calls s' = hyp_calls s"
proof (induction t arbitrary: d s)
  case (Done x)
  then show ?case by simp
next
  case (Alloc_pages sz k)
  from Alloc_pages.prems obtain p d1 s1 where
    a: "arm_smmu_alloc_pages_exact env d sz s = Inr (p, d1, s1)" and
    b: "run_pgtable env (k p) d1 s1 = Inr (r, d', s')"
    by (auto split: sum.splits prod.splits)
  have "hyp_calls s' = hyp_calls s1" by (rule Alloc_pages.IH [OF rangeI b])
  with alloc_pages_hyp [OF a] show ?case by simp
next
  case (Free_pages virt sz k)
  from Free_pages.prems obtain d1 s1 where
    a: "arm_smmu_free_pages_exact env d virt sz s = Inr (d1, s1)" and
    b: "run_pgtable env k d1 s1 = Inr (r, d', s')"
    by (auto split: sum.splits prod.splits)
  have "hyp_calls s' = hyp_calls s1" by (rule Free_pages.IH [OF b])
  with free_pages_hyp [OF a] show ?case by simp
next
  case (Tlb_flush_all k)
  from Tlb_flush_all.IH [of d "arm_smmu_tlb_inv_context env d s"] Tlb_flush_all.prems
  show ?case by simp
next
  case (Tlb_add_flush iova sz leaf k)
  from Tlb_add_flush.prems obtain s1 where
    a: "arm_smmu_tlb_inv_range_nosync iova sz leaf d s = Inr s1" and
    b: "run_pgtable env k d s1 = Inr (r, d', s')"
    by (auto split: sum.splits)
  from Tlb_add_flush.IH [OF b] tlb_inv_range_hyp [OF a] show ?case by simp
next
  case (Tlb_sync k)
  from Tlb_sync.IH [of d "arm_smmu_tlb_sync env d s"] Tlb_sync.prems
  show ?case by simp
qed

lemma hyp_calls_assigned:
  "hyp_calls (s\<lparr>calls := calls s @ map (assign_call d) es\<rparr>) =
     hyp_calls s @ map (assign_call d) es"
  by (induction es rule: rev_induct) (simp_all add: hyp_calls_def assign_call_def)

lemma grows_secure:
  "domain_grows d d' \<Longrightarrow> arm_smmu_is_master_side_secure d' = arm_smmu_is_master_side_secure d"
  "domain_grows d d' \<Longrightarrow> assign_call d' = assign_call d"
  by (auto simp: domain_grows_def arm_smmu_is_master_side_secure_def arm_smmu_has_secure_vmid_def
      assign_call_def fun_eq_iff)

lemma map_success:
  assumes sec: "arm_smmu_is_master_side_secure d" and ops: "pgtbl_ops d"
    and m: "arm_smmu_map env ops d iova paddr sz prot s = Inr (0, d', s')"
  shows "\<exists>d1 s1 new. run_pgtable env (map_op ops iova paddr sz prot) d s = Inr (0, d1, s1) \<and>
           pte_info_list d1 = pte_info_list d @ new \<and> d' = d1\<lparr>pte_info_list := []\<rparr> \<and>
           s' = s1\<lparr>calls := calls s1 @ map (assign_call d) (pte_info_list d @ new)\<rparr> \<and>
           hyp_calls s' = hyp_calls s @ map (assign_call d) (pte_info_list d @ new)"
proof -
  from m ops obtain ret d1 s1 where
    r: "run_pgtable env (map_op ops iova paddr sz prot) d s = Inr (ret, d1, s1)"
    by (auto simp: arm_smmu_map_def split: sum.splits)
  have ret: "ret = 0"
  proof (rule ccontr)
    assume "ret \<noteq> 0"
    with m ops r show False by (simp add: arm_smmu_map_def)
  qed
  from m ops r ret have a: "arm_smmu_assign_table env d1 s1 = (0, d', s')"
    by (simp add: arm_smmu_map_def)
  have g: "domain_grows d d1" by (rule run_pgtable_grows [OF r])
  then obtain new where new: "pte_info_list d1 = pte_info_list d @ new"
    by (auto simp: domain_grows_def)
  from g sec have sec1: "arm_smmu_is_master_side_secure d1" by (simp add: grows_secure)
  from a sec1 have l: "fst (assign_loop env d1 (pte_info_list d1) s1) = 0"
    and d': "d' = d1\<lparr>pte_info_list := []\<rparr>"
    and s': "s' = snd (assign_loop env d1 (pte_info_list d1) s1)"
    by (auto simp: arm_smmu_assign_table_def split: prod.splits)
  from assign_loop_unit [OF l] s' new g
  have s'': "s' = s1\<lparr>calls := calls s1 @ map (assign_call d) (pte_info_list d @ new)\<rparr>"
    by (simp add: grows_secure)
  have "hyp_calls s' = hyp_calls s1 @ map (assign_call d) (pte_info_list d @ new)"
    unfolding s'' by (rule hyp_calls_assigned)
  with run_pgtable_hyp [OF r] r ret new d' s'' show ?thesis by auto
qed

lemma unassign_table_drains:
  "arm_smmu_is_master_side_secure d \<Longrightarrow> arm_smmu_unassign_table env d s = (d', s') \<Longrightarrow>
     unassign_list d' = [] \<and> pte_info_list d' = pte_info_list d"
  by (auto simp: arm_smmu_unassign_table_def)

lemma assign_table_drains:
  "arm_smmu_is_master_side_secure d \<Longrightarrow> arm_smmu_assign_table env d s = (r, d', s') \<Longrightarrow>
     pte_info_list d' = [] \<and> unassign_list d' = unassign_list d \<and>
     arm_smmu_is_master_side_secure d'"
  by (auto simp: arm_smmu_assign_table_def arm_smmu_is_master_side_secure_def
      arm_smmu_has_secure_vmid_def split: prod.splits)

lemma unmap_drains:
  assumes sec: "arm_smmu_is_master_side_secure d" and ops: "pgtbl_ops d"
    and u: "arm_smmu_unmap env ops d iova sz s = Inr (n, d', s')"
    and c: "fst (unmap_enable_clocks env d s) = 0"
  shows "pte_info_list d' = [] \<and> unassign_list d' = []"
proof -
  from sec have ns: "\<not> arm_smmu_is_slave_side_secure d"
    by (auto simp: arm_smmu_is_master_side_secure_def arm_smmu_is_slave_side_secure_def)
  obtain s1 where e: "unmap_enable_clocks env d s = (0, s1)"
    using c by (cases "unmap_enable_clocks env d s") simp
  from u ops ns e obtain ret d2 s2 where
    r: "run_pgtable env (unmap_op ops iova sz) d s1 = Inr (ret, d2, s2)"
    by (auto simp: arm_smmu_unmap_def split: if_splits sum.splits)
  from run_pgtable_grows [OF r] sec have sec2: "arm_smmu_is_master_side_secure d2"
    by (simp add: grows_secure)
  obtain a d3 s3 where a: "arm_smmu_assign_table env d2 s2 = (a, d3, s3)"
    by (cases "arm_smmu_assign_table env d2 s2") auto
  obtain d4 s4 where b: "arm_smmu_unassign_table env d3 s3 = (d4, s4)"
    by (cases "arm_smmu_unassign_table env d3 s3") auto
  from u ops ns e r a b have "d' = d4"
    by (auto simp: arm_smmu_unmap_def split: if_splits)
  with assign_table_drains [OF sec2 a] unassign_table_drains [OF _ b] show ?thesis by simp
qed

lemma unmap_early:
  assumes sec: "arm_smmu_is_master_side_secure d" and ops: "pgtbl_ops d"
    and u: "arm_smmu_unmap env ops d iova sz s = Inr (n, d', s')"
    and c: "fst (unmap_enable_clocks env d s) \<noteq> 0"
  shows "d' = d \<and> n = 0"
proof -
  from sec have ns: "\<not> arm_smmu_is_slave_side_secure d"
    by (auto simp: arm_smmu_is_master_side_secure_def arm_smmu_is_slave_side_secure_def)
  from u ops ns c show ?thesis
    by (auto simp: arm_smmu_unmap_def split: if_splits prod.splits)
qed

lemma power_only_hyp: "power_only s s' \<Longrightarrow> hyp_calls s' = hyp_calls s"
proof -
  assume "power_only s s'"
  then obtain pc cc cs ls where
    1: "s' = s\<lparr>power_count := pc, clock_refs_count := cc,
                calls := calls s @ cs, logs := logs s @ ls\<rparr>"
    and 2: "\<forall>c\<in>set cs. is_power_call (fst c)"
    unfolding power_only_def by blast
  have "\<And>c. is_hyp_assign c \<Longrightarrow> \<not> is_power_call (fst c)"
    by (erule is_hyp_assign.elims) simp
  with 2 have "filter is_hyp_assign cs = []" by (auto simp: filter_empty_conv)
  with 1 show ?thesis by (simp add: hyp_calls_def)
qed

lemma unmap_clocks_hyp:
  "hyp_calls (snd (unmap_enable_clocks env d s)) = hyp_calls s"
  "hyp_calls (unmap_disable_clocks env d s) = hyp_calls s"
  by (auto simp: unmap_enable_clocks_def unmap_disable_clocks_def
      intro!: power_only_hyp po_enable_clocks po_enable_clocks_atomic po_disable_clocks
        po_disable_clocks_atomic)

lemma hyp_ok_call:
  "hyp_ok env \<Longrightarrow> call env (hyp_assign_phys a src dst perms) s =
     (0, s\<lparr>calls := calls s @ [(hyp_assign_phys a src dst perms, 0)]\<rparr>)"
  by (simp add: hyp_ok_def call_def)

lemma assign_loop_all: "hyp_ok env \<Longrightarrow> fst (assign_loop env d es s) = 0"
  by (induction es arbitrary: s) (simp_all add: hyp_ok_call)

lemma unassign_loop_hyp:
  "hyp_ok env \<Longrightarrow>
     hyp_calls (unassign_loop env d es s) = hyp_calls s @ map (unassign_call d) es"
  by (induction es arbitrary: s)
     (simp_all add: hyp_ok_call hyp_calls_def call_void_def unassign_call_def)

lemma unmap_accounts:
  assumes sec: "arm_smmu_is_master_side_secure d" and ops: "pgtbl_ops d"
    and u: "arm_smmu_unmap env ops d iova sz s = Inr (n, d', s')"
    and c: "fst (unmap_enable_clocks env d s) = 0"
  shows "\<exists>ret d2 s2.
           run_pgtable env (unmap_op ops iova sz) d (snd (unmap_enable_clocks env d s)) =
             Inr (ret, d2, s2) \<and>
           (hyp_ok env \<longrightarrow> n = ret \<and>
              hyp_calls s' = hyp_calls s @ map (assign_call d) (pte_info_list d2) @
                               map (unassign_call d) (unassign_list d2))"
proof -
  from sec have ns: "\<not> arm_smmu_is_slave_side_secure d"
    by (auto simp: arm_smmu_is_master_side_secure_def arm_smmu_is_slave_side_secure_def)
  define s1 where "s1 = snd (unmap_enable_clocks env d s)"
  have e: "unmap_enable_clocks env d s = (0, s1)"
    using c by (simp add: s1_def prod_eq_iff)
  from u ops ns e obtain ret d2 s2 where
    r: "run_pgtable env (unmap_op ops iova sz) d s1 = Inr (ret, d2, s2)"
    by (auto simp: arm_smmu_unmap_def split: if_splits sum.splits)
  have g: "domain_grows d d2" by (rule run_pgtable_grows [OF r])
  with sec have sec2: "arm_smmu_is_master_side_secure d2" by (simp add: grows_secure)
  from g have v: "secure_vmid d2 = secure_vmid d" by (simp add: domain_grows_def)
  have h2: "hyp_calls s2 = hyp_calls s"
    using run_pgtable_hyp [OF r] by (simp add: s1_def unmap_clocks_hyp)
  have "n = ret \<and>
      hyp_calls s' = hyp_calls s @ map (assign_call d) (pte_info_list d2) @
                       map (unassign_call d) (unassign_list d2)"
    if ok: "hyp_ok env"
  proof -
    define s3 where "s3 = s2\<lparr>calls := calls s2 @ map (assign_call d2) (pte_info_list d2)\<rparr>"
    define d3 where "d3 = d2\<lparr>pte_info_list := []\<rparr>"
    have a: "arm_smmu_assign_table env d2 s2 = (0, d3, s3)"
      using sec2 assign_loop_all [OF ok, of d2 "pte_info_list d2" s2]
        assign_loop_unit [of env d2 "pte_info_list d2" s2]
      by (simp add: arm_smmu_assign_table_def case_prod_beta d3_def s3_def)
    have sec3: "arm_smmu_is_master_side_secure d3"
      using sec2 by (simp add: d3_def arm_smmu_is_master_side_secure_def
          arm_smmu_has_secure_vmid_def)
    have b: "arm_smmu_unassign_table env d3 s3 =
        (d3\<lparr>unassign_list := []\<rparr>, unassign_loop env d3 (unassign_list d2) s3)"
      using sec3 by (simp add: arm_smmu_unassign_table_def d3_def)
    from u ops ns e r a b have n: "n = ret"
      and s': "s' = unmap_disable_clocks env d (unassign_loop env d3 (unassign_list d2) s3)"
      by (auto simp: arm_smmu_unmap_def split: if_splits)
    have "hyp_calls s3 = hyp_calls s2 @ map (assign_call d2) (pte_info_list d2)"
      unfolding s3_def by (rule hyp_calls_assigned)
    moreover have "assign_call d2 = assign_call d" "unassign_call d3 = unassign_call d"
      using v by (simp_all add: assign_call_def unassign_call_def fun_eq_iff d3_def)
    ultimately show ?thesis
      using n h2 by (simp add: s' unmap_clocks_hyp unassign_loop_hyp [OF ok])
  qed
  with r show ?thesis by (auto simp: s1_def)
qed

lemmas secure_example_defs = domain_secure_def arm_smmu_domain_alloc_def
  arm_smmu_is_master_side_secure_def arm_smmu_has_secure_vmid_def VMID_INVAL_def
  arm_smmu_alloc_pages_exact_def arm_smmu_secure_pool_remove_def arm_smmu_prepare_pgtable_def
  arm_smmu_free_pages_exact_def arm_smmu_secure_pool_add_def arm_smmu_unprepare_pgtable_def
  call_def call_void_def env_pages_def Let_def

lemma domain_secure_simps:
  "arm_smmu_is_master_side_secure domain_secure" "pgtbl_ops domain_secure"
  "pte_info_list domain_secure = []" "unassign_list domain_secure = []"
  "\<not> smmu domain_secure" "DOMAIN_ATTR_ATOMIC \<notin> attributes domain_secure"
  by (simp_all add: secure_example_defs)

lemma map_fails_run:
  "arm_smmu_map env_pages ops_map_fails domain_secure 0 0 4096 0 machine_off =
     Inr (- 17, domain_secure\<lparr>pte_info_list := [\<lparr>virt_addr = 0x1000, size' = 0\<rparr>]\<rparr>,
          machine_off\<lparr>calls := [(alloc_pages_exact 4096, 0x1000), (kzalloc_pte_info, 1)]\<rparr>)"
  by (simp add: arm_smmu_map_def ops_map_fails_def secure_example_defs machine_off_def)

lemma map_one_table_run:
  "arm_smmu_map env_pages ops_map_one_table domain_secure 0 0 4096 0 machine_off =
     Inr (0, domain_secure,
          machine_off\<lparr>calls := [(alloc_pages_exact 4096, 0x1000), (kzalloc_pte_info, 1),
             assign_call domain_secure \<lparr>virt_addr = 0x1000, size' = 0\<rparr>]\<rparr>)"
  by (simp add: arm_smmu_map_def ops_map_one_table_def secure_example_defs machine_off_def
      arm_smmu_assign_table_def assign_call_def)

lemma unmap_split_run:
  "arm_smmu_unmap env_no_chunk ops_unmap_split domain_secure 0 4096 machine_off =
     Inr (4096, domain_secure,
          machine_off\<lparr>calls := [(alloc_pages_exact 4096, 0x1000), (kzalloc_pte_info, 1),
             (kmalloc_pool_chunk, 0), (kzalloc_pte_info, 1),
             assign_call domain_secure \<lparr>virt_addr = 0x1000, size' = 0\<rparr>,
             unassign_call domain_secure \<lparr>virt_addr = 0x2000, size' = 4096\<rparr>,
             (free_pages_exact 0x2000 4096, 0)]\<rparr>)"
  by (simp add: arm_smmu_unmap_def ops_unmap_split_def domain_secure_def
      arm_smmu_domain_alloc_def arm_smmu_is_master_side_secure_def arm_smmu_has_secure_vmid_def
      VMID_INVAL_def arm_smmu_alloc_pages_exact_def arm_smmu_secure_pool_remove_def
      arm_smmu_prepare_pgtable_def arm_smmu_free_pages_exact_def arm_smmu_secure_pool_add_def
      arm_smmu_unprepare_pgtable_def call_def call_void_def env_no_chunk_def Let_def
      machine_off_def arm_smmu_assign_table_def arm_smmu_unassign_table_def
      unmap_enable_clocks_def unmap_disable_clocks_def arm_smmu_is_slave_side_secure_def
      assign_call_def unassign_call_def)

lemma hyp_ok_env_no_chunk: "hyp_ok env_no_chunk"
  by (simp add: hyp_ok_def env_no_chunk_def)

text \<open>Claim C3, as amended. For a master-side-secure domain with page-table operations:
  when map returns 0, the library's map returned 0, the pending-assign list is empty, and
  all that map did after the library returned is one successful hypervisor assign call for
  each entry then on the pending-assign list (the entries pending before the call followed
  by those the call added), in list order; these are the only hypervisor calls of the
  whole map. When the library's map fails, map returns its error with the domain as the
  library left it: the pending-assign list is not drained, and map never drains the
  pending-unassign list. When unmap returns after it got its clocks, both lists are empty;
  and if the hypervisor grants every call, unmap returns what the library's unmap
  returned and its hypervisor calls are exactly one assign call for each entry on the
  pending-assign list when the library returned, in list order, followed by one unassign
  call for each entry then on the pending-unassign list, in list order. When unmap
  does not get its clocks it returns 0 and leaves the domain as it was.\<close>

theorem secure_pending_lists_settled:
  "arm_smmu_is_master_side_secure d \<and> pgtbl_ops d \<longrightarrow>
   (\<forall>d' s'. arm_smmu_map env ops d iova paddr sz prot s = Inr (0, d', s') \<longrightarrow>
      (\<exists>d1 s1 new. run_pgtable env (map_op ops iova paddr sz prot) d s = Inr (0, d1, s1) \<and>
         pte_info_list d1 = pte_info_list d @ new \<and> d' = d1\<lparr>pte_info_list := []\<rparr> \<and>
         s' = s1\<lparr>calls := calls s1 @ map (assign_call d) (pte_info_list d @ new)\<rparr> \<and>
         hyp_calls s' = hyp_calls s @ map (assign_call d) (pte_info_list d @ new))) \<and>
   (\<forall>ret d1 s1. run_pgtable env (map_op ops iova paddr sz prot) d s = Inr (ret, d1, s1) \<and>
        ret \<noteq> 0 \<longrightarrow>
      arm_smmu_map env ops d iova paddr sz prot s = Inr (ret, d1, s1)) \<and>
   (\<forall>n d' s'. arm_smmu_unmap env ops d iova sz s = Inr (n, d', s') \<longrightarrow>
      (if fst (unmap_enable_clocks env d s) = 0
       then pte_info_list d' = [] \<and> unassign_list d' = [] \<and>
            (\<exists>ret d2 s2.
               run_pgtable env (unmap_op ops iova sz) d (snd (unmap_enable_clocks env d s)) =
                 Inr (ret, d2, s2) \<and>
               (hyp_ok env \<longrightarrow> n = ret \<and>
                  hyp_calls s' = hyp_calls s @ map (assign_call d) (pte_info_list d2) @
                                   map (unassign_call d) (unassign_list d2)))
       else d' = d \<and> n = 0))"
proof (intro impI conjI allI; (elim conjE)?)
  fix d' s'
  assume "arm_smmu_is_master_side_secure d" "pgtbl_ops d"
    "arm_smmu_map env ops d iova paddr sz prot s = Inr (0, d', s')"
  then show "\<exists>d1 s1 new. run_pgtable env (map_op ops iova paddr sz prot) d s = Inr (0, d1, s1) \<and>
         pte_info_list d1 = pte_info_list d @ new \<and> d' = d1\<lparr>pte_info_list := []\<rparr> \<and>
         s' = s1\<lparr>calls := calls s1 @ map (assign_call d) (pte_info_list d @ new)\<rparr> \<and>
         hyp_calls s' = hyp_calls s @ map (assign_call d) (pte_info_list d @ new)"
    by (rule map_success)
next
  fix ret d1 s1
  assume "pgtbl_ops d" "run_pgtable env (map_op ops iova paddr sz prot) d s = Inr (ret, d1, s1)"
    "ret \<noteq> 0"
  then show "arm_smmu_map env ops d iova paddr sz prot s = Inr (ret, d1, s1)"
    by (simp add: arm_smmu_map_def)
next
  fix n d' s'
  assume "arm_smmu_is_master_side_secure d" "pgtbl_ops d"
    "arm_smmu_unmap env ops d iova sz s = Inr (n, d', s')"
  then show "if fst (unmap_enable_clocks env d s) = 0
       then pte_info_list d' = [] \<and> unassign_list d' = [] \<and>
            (\<exists>ret d2 s2.
               run_pgtable env (unmap_op ops iova sz) d (snd (unmap_enable_clocks env d s)) =
                 Inr (ret, d2, s2) \<and>
               (hyp_ok env \<longrightarrow> n = ret \<and>
                  hyp_calls s' = hyp_calls s @ map (assign_call d) (pte_info_list d2) @
                                   map (unassign_call d) (unassign_list d2)))
       else d' = d \<and> n = 0"
    using unmap_drains [of d env ops iova sz s n d' s'] unmap_early [of d env ops iova sz s n d' s']
      unmap_accounts [of d env ops iova sz s n d' s']
    by (simp split: if_splits)
qed

theorem secure_pending_lists_settled_witness:
  "arm_smmu_is_master_side_secure domain_secure \<and> pgtbl_ops domain_secure \<and>
   (\<exists>s'. arm_smmu_map env_pages ops_map_one_table domain_secure 0 0 4096 0 machine_off =
            Inr (0, domain_secure, s') \<and>
          hyp_calls s' = [assign_call domain_secure \<lparr>virt_addr = 0x1000, size' = 0\<rparr>]) \<and>
   (\<exists>d1 s1. run_pgtable env_pages (map_op ops_map_fails 0 0 4096 0) domain_secure machine_off =
            Inr (- 17, d1, s1) \<and>
          arm_smmu_map env_pages ops_map_fails domain_secure 0 0 4096 0 machine_off =
            Inr (- 17, d1, s1)) \<and>
   (\<exists>d' s'. arm_smmu_unmap env_no_chunk ops_unmap_split domain_secure 0 4096 machine_off =
            Inr (4096, d', s') \<and>
          fst (unmap_enable_clocks env_no_chunk domain_secure machine_off) = 0 \<and>
          hyp_ok env_no_chunk \<and> pte_info_list d' = [] \<and> unassign_list d' = [] \<and>
          hyp_calls s' = [assign_call domain_secure \<lparr>virt_addr = 0x1000, size' = 0\<rparr>,
                          unassign_call domain_secure \<lparr>virt_addr = 0x2000, size' = 4096\<rparr>])"
proof -
  note t = secure_pending_lists_settled [of domain_secure env_pages _ 0 0 4096 0 machine_off]
  have h: "hyp_calls machine_off = []" by (simp add: hyp_calls_def machine_off_def)
  have 1: "\<exists>s'. arm_smmu_map env_pages ops_map_one_table domain_secure 0 0 4096 0 machine_off =
            Inr (0, domain_secure, s') \<and>
          hyp_calls s' = [assign_call domain_secure \<lparr>virt_addr = 0x1000, size' = 0\<rparr>]"
  proof -
    have r1: "run_pgtable env_pages (map_op ops_map_one_table 0 0 4096 0) domain_secure machine_off =
      Inr (0, domain_secure\<lparr>pte_info_list := [\<lparr>virt_addr = 0x1000, size' = 0\<rparr>]\<rparr>,
          machine_off\<lparr>calls := [(alloc_pages_exact 4096, 0x1000), (kzalloc_pte_info, 1)]\<rparr>)"
      by (simp add: ops_map_one_table_def secure_example_defs machine_off_def)
    from t [of ops_map_one_table] map_one_table_run obtain d1 s1 new s' where
      m: "arm_smmu_map env_pages ops_map_one_table domain_secure 0 0 4096 0 machine_off =
            Inr (0, domain_secure, s')" and
      r: "run_pgtable env_pages (map_op ops_map_one_table 0 0 4096 0) domain_secure machine_off =
            Inr (0, d1, s1)" and
      n: "pte_info_list d1 = pte_info_list domain_secure @ new" and
      c: "hyp_calls s' = hyp_calls machine_off @
            map (assign_call domain_secure) (pte_info_list domain_secure @ new)"
      by (auto simp: domain_secure_simps)
    from r r1 have "pte_info_list d1 = [\<lparr>virt_addr = 0x1000, size' = 0\<rparr>]" by auto
    with n have "new = [\<lparr>virt_addr = 0x1000, size' = 0\<rparr>]"
      by (simp add: domain_secure_simps)
    with c h m show ?thesis by (simp add: domain_secure_simps)
  qed
  have r: "run_pgtable env_pages (map_op ops_map_fails 0 0 4096 0) domain_secure machine_off =
      Inr (- 17, domain_secure\<lparr>pte_info_list := [\<lparr>virt_addr = 0x1000, size' = 0\<rparr>]\<rparr>,
          machine_off\<lparr>calls := [(alloc_pages_exact 4096, 0x1000), (kzalloc_pte_info, 1)]\<rparr>)"
    by (simp add: ops_map_fails_def secure_example_defs machine_off_def)
  have 2: "\<exists>d1 s1. run_pgtable env_pages (map_op ops_map_fails 0 0 4096 0) domain_secure machine_off =
            Inr (- 17, d1, s1) \<and>
          arm_smmu_map env_pages ops_map_fails domain_secure 0 0 4096 0 machine_off =
            Inr (- 17, d1, s1)"
    using t [of ops_map_fails] r by (simp add: domain_secure_simps)
  have c: "fst (unmap_enable_clocks env_no_chunk domain_secure machine_off) = 0"
    by (simp add: unmap_enable_clocks_def domain_secure_simps)
  have 3: "\<exists>d' s'. arm_smmu_unmap env_no_chunk ops_unmap_split domain_secure 0 4096 machine_off =
            Inr (4096, d', s') \<and>
          fst (unmap_enable_clocks env_no_chunk domain_secure machine_off) = 0 \<and>
          hyp_ok env_no_chunk \<and> pte_info_list d' = [] \<and> unassign_list d' = [] \<and>
          hyp_calls s' = [assign_call domain_secure \<lparr>virt_addr = 0x1000, size' = 0\<rparr>,
                          unassign_call domain_secure \<lparr>virt_addr = 0x2000, size' = 4096\<rparr>]"
  proof -
    have ru: "run_pgtable env_no_chunk (unmap_op ops_unmap_split 0 4096) domain_secure
        (snd (unmap_enable_clocks env_no_chunk domain_secure machine_off)) =
      Inr (4096,
           domain_secure\<lparr>pte_info_list := [\<lparr>virt_addr = 0x1000, size' = 0\<rparr>],
                          unassign_list := [\<lparr>virt_addr = 0x2000, size' = 4096\<rparr>]\<rparr>,
           machine_off\<lparr>calls := [(alloc_pages_exact 4096, 0x1000), (kzalloc_pte_info, 1),
             (kmalloc_pool_chunk, 0), (kzalloc_pte_info, 1)]\<rparr>)"
      by (simp add: ops_unmap_split_def domain_secure_def arm_smmu_domain_alloc_def
          arm_smmu_is_master_side_secure_def arm_smmu_has_secure_vmid_def VMID_INVAL_def
          arm_smmu_alloc_pages_exact_def arm_smmu_secure_pool_remove_def
          arm_smmu_prepare_pgtable_def arm_smmu_free_pages_exact_def
          arm_smmu_secure_pool_add_def arm_smmu_unprepare_pgtable_def call_def
          env_no_chunk_def Let_def machine_off_def unmap_enable_clocks_def)
    from secure_pending_lists_settled
      [of domain_secure env_no_chunk ops_unmap_split 0 0 4096 0 machine_off]
      unmap_split_run c hyp_ok_env_no_chunk
    obtain ret d2 s2 s' where
      u: "arm_smmu_unmap env_no_chunk ops_unmap_split domain_secure 0 4096 machine_off =
            Inr (4096, domain_secure, s')" and
      r: "run_pgtable env_no_chunk (unmap_op ops_unmap_split 0 4096) domain_secure
            (snd (unmap_enable_clocks env_no_chunk domain_secure machine_off)) =
            Inr (ret, d2, s2)" and
      k: "hyp_calls s' = hyp_calls machine_off @
            map (assign_call domain_secure) (pte_info_list d2) @
            map (unassign_call domain_secure) (unassign_list d2)"
      by (auto simp: domain_secure_simps)
    from r ru have "pte_info_list d2 = [\<lparr>virt_addr = 0x1000, size' = 0\<rparr>]"
      "unassign_list d2 = [\<lparr>virt_addr = 0x2000, size' = 4096\<rparr>]"
      by auto
    with u k h c hyp_ok_env_no_chunk show ?thesis by (simp add: domain_secure_simps)
  qed
  from 1 2 3 show ?thesis by (simp add: domain_secure_simps)
qed

theorem secure_pending_lists_settled_counterexample:
  "arm_smmu_is_master_side_secure domain_secure \<and>
   arm_smmu_map env_pages ops_map_fails domain_secure 0 0 4096 0 machine_off =
     Inr (- 17, domain_secure\<lparr>pte_info_list := [\<lparr>virt_addr = 0x1000, size' = 0\<rparr>]\<rparr>,
          machine_off\<lparr>calls := [(alloc_pages_exact 4096, 0x1000), (kzalloc_pte_info, 1)]\<rparr>)"
  using map_fails_run by (simp add: domain_secure_simps)

text \<open>Claim C10. On a domain without page-table operations (one that has never been
  attached), map returns \<open>-ENODEV\<close> and unmap returns size 0; neither changes the domain
  or the device, and neither makes a register access, a collaborator call or a log
  entry.\<close>

theorem map_unmap_without_page_table:
  "\<not> pgtbl_ops d \<Longrightarrow>
     arm_smmu_map env ops d iova paddr sz prot s = Inr (- errno_code ENODEV, d, s) \<and>
     arm_smmu_unmap env ops d iova sz s = Inr (0, d, s)"
  by (simp add: arm_smmu_map_def arm_smmu_unmap_def)

theorem map_unmap_without_page_table_witness:
  "\<not> pgtbl_ops arm_smmu_domain_alloc \<and>
   arm_smmu_map env_ok ops_map_one_table arm_smmu_domain_alloc 0 0 4096 0 machine_off =
     Inr (- 19, arm_smmu_domain_alloc, machine_off) \<and>
   arm_smmu_unmap env_ok ops_map_one_table arm_smmu_domain_alloc 0 4096 machine_off =
     Inr (0, arm_smmu_domain_alloc, machine_off)"
  using map_unmap_without_page_table [of arm_smmu_domain_alloc env_ok ops_map_one_table 0 0 4096 0
      machine_off]
  by (simp add: arm_smmu_domain_alloc_def)

section \<open>Exclusive context banks\<close>

lemma device_kept_refl [simp, intro!]: "device_kept s s"
  unfolding device_kept_def
  by (rule exI [of _ "power_count s"], rule exI [of _ "clock_refs_count s"],
      rule exI [of _ "arm_smmu_device.irptndx s"], rule exI [of _ "mmio s"],
      rule exI [of _ "calls s"], rule exI [of _ "logs s"]) simp

lemma device_kept_trans: "device_kept s s1 \<Longrightarrow> device_kept s1 s2 \<Longrightarrow> device_kept s s2"
proof -
  assume "device_kept s s1" and "device_kept s1 s2"
  then obtain pc cc ic mm ca lo pc' cc' ic' mm' ca' lo' where
    1: "s1 = s\<lparr>power_count := pc, clock_refs_count := cc,
         arm_smmu_device.irptndx := ic, mmio := mm, calls := ca, logs := lo\<rparr>"
    and 2: "s2 = s1\<lparr>power_count := pc', clock_refs_count := cc',
         arm_smmu_device.irptndx := ic', mmio := mm', calls := ca', logs := lo'\<rparr>"
    unfolding device_kept_def by blast
  show ?thesis
    unfolding device_kept_def
    by (rule exI [of _ pc'], rule exI [of _ cc'], rule exI [of _ ic'], rule exI [of _ mm'],
        rule exI [of _ ca'], rule exI [of _ lo']) (simp add: 1 2)
qed

lemma device_kept_upd:
  "device_kept s (s\<lparr>power_count := pc\<rparr>)"
  "device_kept s (s\<lparr>clock_refs_count := cc\<rparr>)"
  "device_kept s (s\<lparr>arm_smmu_device.irptndx := ic\<rparr>)"
  "device_kept s (s\<lparr>mmio := mm\<rparr>)"
  "device_kept s (s\<lparr>calls := ca\<rparr>)"
  "device_kept s (s\<lparr>logs := lo\<rparr>)"
  unfolding device_kept_def
       apply (rule exI [of _ pc], rule exI [of _ "clock_refs_count s"],
      rule exI [of _ "arm_smmu_device.irptndx s"], rule exI [of _ "mmio s"],
      rule exI [of _ "calls s"], rule exI [of _ "logs s"], simp)
      apply (rule exI [of _ "power_count s"], rule exI [of _ cc],
      rule exI [of _ "arm_smmu_device.irptndx s"], rule exI [of _ "mmio s"],
      rule exI [of _ "calls s"], rule exI [of _ "logs s"], simp)
     apply (rule exI [of _ "power_count s"], rule exI [of _ "clock_refs_count s"],
      rule exI [of _ ic], rule exI [of _ "mmio s"],
      rule exI [of _ "calls s"], rule exI [of _ "logs s"], simp)
    apply (rule exI [of _ "power_count s"], rule exI [of _ "clock_refs_count s"],
      rule exI [of _ "arm_smmu_device.irptndx s"], rule exI [of _ mm],
      rule exI [of _ "calls s"], rule exI [of _ "logs s"], simp)
   apply (rule exI [of _ "power_count s"], rule exI [of _ "clock_refs_count s"],
      rule exI [of _ "arm_smmu_device.irptndx s"], rule exI [of _ "mmio s"],
      rule exI [of _ ca], rule exI [of _ "logs s"], simp)
  apply (rule exI [of _ "power_count s"], rule exI [of _ "clock_refs_count s"],
      rule exI [of _ "arm_smmu_device.irptndx s"], rule exI [of _ "mmio s"],
      rule exI [of _ "calls s"], rule exI [of _ lo], simp)
  done

lemma dk_upd [intro!]:
  "device_kept s s1 \<Longrightarrow> device_kept s (s1\<lparr>power_count := pc\<rparr>)"
  "device_kept s s1 \<Longrightarrow> device_kept s (s1\<lparr>clock_refs_count := cc\<rparr>)"
  "device_kept s s1 \<Longrightarrow> device_kept s (s1\<lparr>arm_smmu_device.irptndx := ic\<rparr>)"
  "device_kept s s1 \<Longrightarrow> device_kept s (s1\<lparr>mmio := mm\<rparr>)"
  "device_kept s s1 \<Longrightarrow> device_kept s (s1\<lparr>calls := ca\<rparr>)"
  "device_kept s s1 \<Longrightarrow> device_kept s (s1\<lparr>logs := lo\<rparr>)"
  by (erule device_kept_trans, rule device_kept_upd)+

lemma dk_prims [intro!]:
  "device_kept s s1 \<Longrightarrow> device_kept s (log m s1)"
  "device_kept s s1 \<Longrightarrow> device_kept s (call_void c s1)"
  "device_kept s s1 \<Longrightarrow> device_kept s (snd (call env c s1))"
  "device_kept s s1 \<Longrightarrow> device_kept s (snd (readl_relaxed env a s1))"
  "device_kept s s1 \<Longrightarrow> device_kept s (snd (readq_relaxed env a s1))"
  "device_kept s s1 \<Longrightarrow> device_kept s (writel_relaxed v a s1)"
  "device_kept s s1 \<Longrightarrow> device_kept s (writeq_relaxed w a s1)"
  "device_kept s s1 \<Longrightarrow> device_kept s (snd (readl_poll_timeout_atomic env a s1))"
  by (auto simp: log_def call_void_def call_def readl_relaxed_def readq_relaxed_def
      writel_relaxed_def writeq_relaxed_def readl_poll_timeout_atomic_def Let_def)

lemma power_only_kept: "power_only s s' \<Longrightarrow> device_kept s s'"
  unfolding power_only_def by auto

lemma dk_power [intro!]:
  "device_kept s s1 \<Longrightarrow> device_kept s (snd (arm_smmu_enable_clocks env s1))"
  "device_kept s s1 \<Longrightarrow> device_kept s (arm_smmu_disable_clocks env s1)"
  "device_kept s s1 \<Longrightarrow> device_kept s (snd (arm_smmu_enable_clocks_atomic env s1))"
  "device_kept s s1 \<Longrightarrow> device_kept s (arm_smmu_disable_clocks_atomic s1)"
  "device_kept s s1 \<Longrightarrow> device_kept s (snd (arm_smmu_enable_regulators env s1))"
  "device_kept s s1 \<Longrightarrow> device_kept s (snd (arm_smmu_disable_regulators env s1))"
  by (erule device_kept_trans, rule power_only_kept, rule, rule power_only_refl)+

lemma dk_tlb_sync_poll [intro!]:
  "device_kept s s1 \<Longrightarrow> device_kept s (tlb_sync_poll env k s1)"
proof (induction k arbitrary: s1)
  case 0
  then show ?case by simp
next
  case (Suc k)
  have r: "device_kept s (snd (readl_relaxed env (GR0, ARM_SMMU_GR0_sTLBGSTATUS) s1))"
    using Suc.prems by (rule dk_prims)
  show ?case
    using r Suc.IH [OF r] by (auto simp: case_prod_beta)
qed

lemma dk_tlb [intro!]:
  "device_kept s s1 \<Longrightarrow> device_kept s (arm_smmu_tlb_sync_global env s1)"
  "device_kept s s1 \<Longrightarrow> device_kept s (arm_smmu_tlb_sync_cb env n s1)"
  "device_kept s s1 \<Longrightarrow> device_kept s (arm_smmu_tlb_inv_context env d s1)"
  "device_kept s s1 \<Longrightarrow> device_kept s (arm_smmu_tlb_sync env d s1)"
  by (auto simp: arm_smmu_tlb_sync_global_def arm_smmu_tlb_sync_cb_def
      arm_smmu_tlb_inv_context_def arm_smmu_tlb_sync_def case_prod_beta)





lemma dk_assign_loop [intro!]:
  "device_kept s s1 \<Longrightarrow> device_kept s (snd (assign_loop env d es s1))"
proof (induction es arbitrary: s1)
  case Nil
  then show ?case by simp
next
  case (Cons e es)
  let ?c = "hyp_assign_phys (virt_addr e) [VMID_HLOS] [VMID_HLOS, sint (secure_vmid d)]
              [PERM_READ + PERM_WRITE, PERM_READ]"
  have r: "device_kept s (snd (call env ?c s1))" using Cons.prems by (rule dk_prims)
  show ?case using r Cons.IH [OF r] by (auto simp: case_prod_beta)
qed

lemma dk_unassign_loop [intro!]:
  "device_kept s s1 \<Longrightarrow> device_kept s (unassign_loop env d es s1)"
proof (induction es arbitrary: s1)
  case Nil
  then show ?case by simp
next
  case (Cons e es)
  let ?c = "hyp_assign_phys (virt_addr e) [sint (secure_vmid d), VMID_HLOS]
                       [VMID_HLOS] [PERM_READ + PERM_WRITE + PERM_EXEC]"
  have r: "device_kept s (snd (call env ?c s1))" using Cons.prems by (rule dk_prims)
  have "device_kept s (call_void (free_pages_exact (virt_addr e) (size' e)) (snd (call env ?c s1)))"
    using r by (rule dk_prims)
  from Cons.IH [OF this] r show ?case by (auto simp: case_prod_beta)
qed

lemma dk_assign_table [intro!]:
  "device_kept s s1 \<Longrightarrow> device_kept s (snd (snd (arm_smmu_assign_table env d s1)))"
  "device_kept s s1 \<Longrightarrow> device_kept s (snd (arm_smmu_unassign_table env d s1))"
  by (auto simp: arm_smmu_assign_table_def arm_smmu_unassign_table_def case_prod_beta)

lemma dk_init_context_bank [intro!]:
  "device_kept s s1 \<Longrightarrow> device_kept s (arm_smmu_init_context_bank d pc s1)"
  by (auto simp: arm_smmu_init_context_bank_def Let_def)


lemma static_bank_iff:
  "static_bank s c \<longleftrightarrow>
     (\<exists>e\<in>set (static_cbndx_list s). type e = TYPE_TRANS \<and> static_cbndx_entry.cbndx e = c)"
  by (auto simp: static_bank_def arm_smmu_get_static_entry_from_context_def find_None_iff
      simp flip: word_uint_eq_iff)










lemma static_bank_cong:
  "static_cbndx_list s' = static_cbndx_list s \<Longrightarrow> static_bank s' c = static_bank s c"
  by (simp add: static_bank_iff)













end
